theory Spec2Isabelle
  imports Complex_Main
begin

section \<open>Data model\<close>

text \<open>
  Embedding of \<^verbatim>\<open>src/model.py\<close> (hypergraph construction, normalisation,
  partitioning, propagation and scoring).  Floating-point numbers are idealised as
  \<^typ>\<open>real\<close>; every exception of the source is a value of \<open>py_error\<close>.
  Two outcomes are not exceptions: \<open>Killed\<close>, the process dying on a signal inside a
  native kernel (an integer division by zero), and \<open>Undefined\<close>, a native kernel reading
  outside its operand, for which no result is specified.
\<close>

datatype py_error =
  ValueError | ZeroDivisionError | IndexError | RuntimeError | Killed | Undefined

text \<open>
  A scipy sparse matrix in compressed-row form: the column count and, for every row,
  the stored (column index, value) pairs, i.e. the slices
  \<^verbatim>\<open>indices[indptr[i]:indptr[i+1]]\<close> and \<^verbatim>\<open>data[indptr[i]:indptr[i+1]]\<close>.
  \<^verbatim>\<open>shape[0]\<close> is the number of row lists.
\<close>

type_synonym sprow = "(nat \<times> real) list"

record spmat =
  n_cols :: nat
  sprows :: "sprow list"

definition n_rows :: "spmat \<Rightarrow> nat" where
  "n_rows M = length (sprows M)"

text \<open>Every stored column index lies inside the shape (scipy maintains this).\<close>

definition wf_row :: "nat \<Rightarrow> sprow \<Rightarrow> bool" where
  "wf_row n r = list_all (\<lambda>kv. fst kv < n) r"

definition wf_spmat :: "spmat \<Rightarrow> bool" where
  "wf_spmat M = list_all (wf_row (n_cols M)) (sprows M)"

text \<open>A dense two-dimensional tensor: explicit column count and the list of rows.\<close>

record dmat =
  d_cols :: nat
  d_rows :: "real list list"

definition wf_dmat :: "dmat \<Rightarrow> bool" where
  "wf_dmat X = list_all (\<lambda>r. length r = d_cols X) (d_rows X)"

text \<open>Sequencing of computations that may raise: an error aborts everything after it.\<close>

definition then_do :: "py_error + 'a \<Rightarrow> ('a \<Rightarrow> py_error + 'b) \<Rightarrow> py_error + 'b" where
  "then_do m f = (case m of Inl e \<Rightarrow> Inl e | Inr x \<Rightarrow> f x)"

text \<open>A list comprehension whose body may raise: the first error wins.\<close>

fun traverse :: "('a \<Rightarrow> py_error + 'b) \<Rightarrow> 'a list \<Rightarrow> py_error + 'b list" where
  "traverse f [] = Inr []"
| "traverse f (x # xs) =
     (case f x of Inl e \<Rightarrow> Inl e
      | Inr y \<Rightarrow> (case traverse f xs of Inl e \<Rightarrow> Inl e | Inr ys \<Rightarrow> Inr (y # ys)))"

section \<open>Split\_HyperGraph\<close>

text \<open>Row slicing \<^verbatim>\<open>H[a:b]\<close> for \<open>0 \<le> a\<close>, \<open>0 \<le> b\<close>: empty when \<open>b \<le> a\<close>, clipped at the end.\<close>

definition row_slice :: "spmat \<Rightarrow> nat \<Rightarrow> nat \<Rightarrow> spmat" where
  "row_slice H a b = \<lparr>n_cols = n_cols H, sprows = take (b - a) (drop a (sprows H))\<rparr>"

text \<open>
  \<^verbatim>\<open>SparseTensor.from_scipy(H_i)\<close> keeps shape, structure and values.  So does
  \<^verbatim>\<open>.to(device)\<close> when the device exists in the runtime; for a device name that is
  unknown or not available it raises \<^verbatim>\<open>RuntimeError\<close>.  The devices of the runtime are a
  parameter of the model.
\<close>

type_synonym device = string

definition from_scipy :: "spmat \<Rightarrow> spmat" where
  "from_scipy M = M"

definition to_device :: "device list \<Rightarrow> device \<Rightarrow> spmat \<Rightarrow> py_error + spmat" where
  "to_device devices dev M = (if dev \<in> set devices then Inr M else Inl RuntimeError)"

text \<open>
  \<^verbatim>\<open>length = H.shape[0] // split_num\<close> raises for \<open>split_num = 0\<close>; for a negative
  \<open>split_num\<close> the \<^verbatim>\<open>range\<close> is empty and \<open>length\<close> is never used.  All slices are
  taken first; the comprehension then converts and places them one by one.
\<close>

definition Split_HyperGraph ::
  "device list \<Rightarrow> spmat \<Rightarrow> device \<Rightarrow> int \<Rightarrow> py_error + spmat list" where
  "Split_HyperGraph devices H dev split_num =
     (if split_num = 0 then Inl ZeroDivisionError
      else
        let len = nat (int (n_rows H) div split_num);
            H_list = map (\<lambda>i. if int i = split_num - 1
                                then row_slice H (len * i) (n_rows H)
                                else row_slice H (len * i) (len * (i + 1)))
                         [0..<nat split_num]
        in traverse (\<lambda>H_i. to_device devices dev (from_scipy H_i)) H_list)"

section \<open>Sparse times dense\<close>

text \<open>
  \<^verbatim>\<open>G @ X\<close> for a sparse block and a dense tensor (the CPU kernel of torch\_sparse): row
  \<open>i\<close> of the result is \<open>\<Sum> v \<cdot> X[k]\<close> over the stored \<open>(k, v)\<close> of row \<open>i\<close>.  The
  kernel divides by the row count of the block and by the row and column counts of the
  operand, so a block without rows, or an operand without rows or columns, kills the
  process.  It does not compare the column count of the block with the row count of the
  operand; it reads the operand at the stored column indices, wherever they point.
\<close>

definition axpy :: "real \<Rightarrow> real list \<Rightarrow> real list \<Rightarrow> real list" where
  "axpy v x acc = map2 (\<lambda>a b. a + v * b) acc x"

definition sp_row_times :: "sprow \<Rightarrow> dmat \<Rightarrow> real list" where
  "sp_row_times r X =
     fold (\<lambda>kv acc. axpy (snd kv) (d_rows X ! fst kv) acc) r (replicate (d_cols X) 0)"

definition sp_matmul_dense :: "spmat \<Rightarrow> dmat \<Rightarrow> py_error + dmat" where
  "sp_matmul_dense G X =
     (if n_rows G = 0 \<or> length (d_rows X) = 0 \<or> d_cols X = 0 then Inl Killed
      else if list_all (wf_row (length (d_rows X))) (sprows G)
        then Inr \<lparr>d_cols = d_cols X, d_rows = map (\<lambda>r. sp_row_times r X) (sprows G)\<rparr>
      else Inl Undefined)"

text \<open>
  \<^verbatim>\<open>torch.cat(ts, dim=0)\<close>: an empty list raises \<^verbatim>\<open>ValueError\<close>, tensors of different
  column counts \<^verbatim>\<open>RuntimeError\<close>.
\<close>

definition cat_rows :: "dmat list \<Rightarrow> py_error + dmat" where
  "cat_rows ts =
     (case ts of [] \<Rightarrow> Inl ValueError
      | t # _ \<Rightarrow>
          if list_all (\<lambda>s. d_cols s = d_cols t) ts
          then Inr \<lparr>d_cols = d_cols t, d_rows = concat (map d_rows ts)\<rparr>
          else Inl RuntimeError)"

section \<open>Sparse algebra used by the builder and the normaliser\<close>

text \<open>
  The value a sparse row holds at column \<open>c\<close>: the sum of the stored values with that
  index (an index stored more than once counts additively, as in scipy).
\<close>

definition row_entry :: "sprow \<Rightarrow> nat \<Rightarrow> real" where
  "row_entry r c = sum_list (map snd (filter (\<lambda>kv. fst kv = c) r))"

definition entry :: "spmat \<Rightarrow> nat \<Rightarrow> nat \<Rightarrow> real" where
  "entry M i j = row_entry (sprows M ! i) j"

text \<open>\<^verbatim>\<open>M.T\<close>: row \<open>j\<close> of the transpose lists the stored entries of column \<open>j\<close>.\<close>

definition transpose_sp :: "spmat \<Rightarrow> spmat" where
  "transpose_sp M =
     \<lparr>n_cols = n_rows M,
      sprows = map (\<lambda>j. concat (map (\<lambda>ir. map (\<lambda>kv. (fst ir, snd kv))
                                             (filter (\<lambda>kv. fst kv = j) (snd ir)))
                                   (enumerate 0 (sprows M))))
                   [0..<n_cols M]\<rparr>"

text \<open>
  \<^verbatim>\<open>A @ B\<close> on sparse operands (scipy's row-wise kernel): for each row of \<open>A\<close> the
  products are accumulated per output column, a column is created when first met, the row
  is emitted latest-created first, and a column whose accumulated sum is exactly zero is
  not stored.
\<close>

fun acc_add :: "sprow \<Rightarrow> nat \<Rightarrow> real \<Rightarrow> sprow" where
  "acc_add [] j x = [(j, x)]"
| "acc_add ((k, v) # r) j x = (if k = j then (k, v + x) # r else (k, v) # acc_add r j x)"

definition spmm_row :: "sprow \<Rightarrow> spmat \<Rightarrow> sprow" where
  "spmm_row ra B =
     filter (\<lambda>kv. snd kv \<noteq> 0)
       (rev (fold (\<lambda>ka acc. fold (\<lambda>jb acc'. acc_add acc' (fst jb) (snd ka * snd jb))
                                (sprows B ! fst ka) acc)
                  ra []))"

definition sp_matmul :: "spmat \<Rightarrow> spmat \<Rightarrow> py_error + spmat" where
  "sp_matmul A B =
     (if n_cols A = n_rows B
      then Inr \<lparr>n_cols = n_cols B, sprows = map (\<lambda>r. spmm_row r B) (sprows A)\<rparr>
      else Inl ValueError)"

text \<open>
  \<^verbatim>\<open>sp.vstack((A, B))\<close> and \<^verbatim>\<open>sp.hstack((A, B))\<close>; scipy raises \<^verbatim>\<open>ValueError\<close> on
  incompatible block dimensions.  Stacking two compressed-row operands vertically compares
  their column counts as they are (the two other vertical stacks of the builder have operands
  whose column counts always agree).  The horizontal stacks go through \<^verbatim>\<open>bmat\<close>, which
  takes the row count of the first block as the common one unless it is zero: a first block
  without rows fixes nothing and contributes nothing.
\<close>

definition sp_vstack :: "spmat \<Rightarrow> spmat \<Rightarrow> py_error + spmat" where
  "sp_vstack A B =
     (if n_cols A = n_cols B
      then Inr \<lparr>n_cols = n_cols A, sprows = sprows A @ sprows B\<rparr>
      else Inl ValueError)"

definition sp_hstack :: "spmat \<Rightarrow> spmat \<Rightarrow> py_error + spmat" where
  "sp_hstack A B =
     (if n_rows A = 0
      then Inr \<lparr>n_cols = n_cols A + n_cols B,
                sprows = map (map (\<lambda>kv. (fst kv + n_cols A, snd kv))) (sprows B)\<rparr>
      else if n_rows A = n_rows B
      then Inr \<lparr>n_cols = n_cols A + n_cols B,
                sprows = map2 (\<lambda>ra rb. ra @ map (\<lambda>kv. (fst kv + n_cols A, snd kv)) rb)
                              (sprows A) (sprows B)\<rparr>
      else Inl ValueError)"

text \<open>\<^verbatim>\<open>sp.diags(v)\<close> as a left or right factor of a product: zero diagonal entries are not
  stored once the diagonal matrix is converted for multiplication.\<close>

definition diags :: "real list \<Rightarrow> spmat" where
  "diags v =
     \<lparr>n_cols = length v,
      sprows = map (\<lambda>ix. if snd ix \<noteq> 0 then [(fst ix, snd ix)] else []) (enumerate 0 v)\<rparr>"

text \<open>\<^verbatim>\<open>H.sum(axis=1).A.ravel()\<close> and \<^verbatim>\<open>H.sum(axis=0).A.ravel()\<close>.\<close>

definition row_sums :: "spmat \<Rightarrow> real list" where
  "row_sums H = map (\<lambda>r. sum_list (map snd r)) (sprows H)"

definition col_sums :: "spmat \<Rightarrow> real list" where
  "col_sums H = map (\<lambda>j. sum_list (map (\<lambda>r. row_entry r j) (sprows H))) [0..<n_cols H]"

section \<open>normalize\_HyperGraph\<close>

definition eps :: real where
  "eps = 1 / 10 ^ 8"

definition normalize_HyperGraph :: "spmat \<Rightarrow> py_error + spmat" where
  "normalize_HyperGraph H =
     (let D_v = diags (map (\<lambda>d. 1 / (sqrt d + eps)) (row_sums H));
          D_e = diags (map (\<lambda>d. 1 / (sqrt d + eps)) (col_sums H))
      in then_do (sp_matmul D_v H) (\<lambda>M1.
         then_do (sp_matmul M1 D_e) (\<lambda>M2.
         then_do (sp_matmul M2 (transpose_sp H)) (\<lambda>M3.
         sp_matmul M3 D_v))))"

section \<open>mix\_Hypergraph\<close>

text \<open>
  The two thresholding loops: for every row index below \<open>n\<close>, every stored value of
  that row is overwritten by \<open>1\<close> if it exceeds the threshold and by \<open>0\<close> otherwise.
  The structure (\<^verbatim>\<open>indptr\<close>, \<^verbatim>\<open>indices\<close>) is untouched.
\<close>

definition binarize_rows :: "nat \<Rightarrow> real \<Rightarrow> spmat \<Rightarrow> spmat" where
  "binarize_rows n threshold M =
     M\<lparr>sprows :=
         map (\<lambda>ir. if fst ir < n
                    then map (\<lambda>kv. (fst kv, if snd kv > threshold then 1 else 0)) (snd ir)
                    else snd ir)
             (enumerate 0 (sprows M))\<rparr>"

type_synonym raw_graph = "spmat \<times> spmat \<times> spmat"

definition uu_graph :: "spmat \<Rightarrow> real \<Rightarrow> py_error + spmat" where
  "uu_graph ub_graph threshold =
     then_do (sp_matmul ub_graph (transpose_sp ub_graph))
       (\<lambda>uu. Inr (binarize_rows (n_rows ub_graph) threshold uu))"

definition bb_graph :: "spmat \<Rightarrow> real \<Rightarrow> py_error + spmat" where
  "bb_graph ub_graph threshold =
     then_do (sp_matmul (transpose_sp ub_graph) ub_graph)
       (\<lambda>bb. Inr (binarize_rows (n_cols ub_graph) threshold bb))"

definition mix_Hypergraph :: "raw_graph \<Rightarrow> real \<Rightarrow> py_error + spmat" where
  "mix_Hypergraph raw threshold =
     (case raw of (ui_graph, bi_graph, ub_graph) \<Rightarrow>
        then_do (uu_graph ub_graph threshold) (\<lambda>uu.
        then_do (bb_graph ub_graph threshold) (\<lambda>bb.
        then_do (sp_vstack ui_graph bi_graph) (\<lambda>H_i.
        then_do (sp_vstack uu (transpose_sp ub_graph)) (\<lambda>left.
        then_do (sp_vstack ub_graph bb) (\<lambda>right.
        then_do (sp_hstack left right) (\<lambda>H_ub.
        sp_hstack H_i H_ub)))))))"

section \<open>Dense tensors\<close>

text \<open>
  Indexing a table by one index of an index tensor: negative indices count from the end,
  anything outside raises.
\<close>

definition get_row :: "dmat \<Rightarrow> int \<Rightarrow> py_error + real list" where
  "get_row F i =
     (let n = int (length (d_rows F)); j = (if i < 0 then i + n else i)
      in if 0 \<le> j \<and> j < n then Inr (d_rows F ! nat j) else Inl IndexError)"

text \<open>A two-dimensional index tensor and a three-dimensional value tensor, with the
  sizes of the trailing dimensions explicit.\<close>

record idx2 =
  i_cols :: nat
  i_rows :: "int list list"

record tensor3 =
  t_d1 :: nat
  t_d2 :: nat
  t_data :: "real list list list"

text \<open>\<^verbatim>\<open>F[idx]\<close> for a two-dimensional index tensor, and for a one-dimensional one.\<close>

definition gather2 :: "dmat \<Rightarrow> idx2 \<Rightarrow> py_error + tensor3" where
  "gather2 F idx =
     then_do (traverse (\<lambda>row. traverse (get_row F) row) (i_rows idx))
       (\<lambda>data. Inr \<lparr>t_d1 = i_cols idx, t_d2 = d_cols F, t_data = data\<rparr>)"

definition gather1 :: "dmat \<Rightarrow> int list \<Rightarrow> py_error + dmat" where
  "gather1 F idx =
     then_do (traverse (get_row F) idx) (\<lambda>rows. Inr \<lparr>d_cols = d_cols F, d_rows = rows\<rparr>)"

text \<open>\<^verbatim>\<open>T.expand(-1, k, -1)\<close>: the middle dimension must already be \<open>k\<close> or be \<open>1\<close>.\<close>

definition expand_mid :: "tensor3 \<Rightarrow> nat \<Rightarrow> py_error + tensor3" where
  "expand_mid T k =
     (if t_d1 T = k then Inr T
      else if t_d1 T = 1
        then Inr \<lparr>t_d1 = k, t_d2 = t_d2 T, t_data = map (\<lambda>b. replicate k (hd b)) (t_data T)\<rparr>
      else Inl RuntimeError)"

text \<open>Broadcasting of the leading dimension of two operands: equal sizes, or one of them \<open>1\<close>.\<close>

definition bcast_size :: "'a list \<Rightarrow> 'b list \<Rightarrow> nat" where
  "bcast_size xs ys = (if length xs = 1 then length ys else length xs)"

definition bcast :: "nat \<Rightarrow> 'a list \<Rightarrow> py_error + 'a list" where
  "bcast n xs =
     (if length xs = n then Inr xs
      else if length xs = 1 then Inr (replicate n (hd xs))
      else Inl RuntimeError)"

text \<open>\<^verbatim>\<open>X / c\<close> for a scalar \<open>c\<close>.\<close>

definition div_scalar :: "dmat \<Rightarrow> real \<Rightarrow> dmat" where
  "div_scalar X c = X\<lparr>d_rows := map (map (\<lambda>x. x / c)) (d_rows X)\<rparr>"

text \<open>Elementwise sum of two dense tensors with the same column count.\<close>

definition add_dense :: "dmat \<Rightarrow> dmat \<Rightarrow> py_error + dmat" where
  "add_dense X Y =
     (if d_cols X \<noteq> d_cols Y then Inl RuntimeError
      else
        let n = bcast_size (d_rows X) (d_rows Y)
        in then_do (bcast n (d_rows X)) (\<lambda>xs.
           then_do (bcast n (d_rows Y)) (\<lambda>ys.
           Inr \<lparr>d_cols = d_cols X, d_rows = map2 (map2 (+)) xs ys\<rparr>)))"

text \<open>\<^verbatim>\<open>X.T\<close> and \<^verbatim>\<open>A @ B\<close> on dense tensors.\<close>

definition dense_T :: "dmat \<Rightarrow> dmat" where
  "dense_T X =
     \<lparr>d_cols = length (d_rows X),
      d_rows = map (\<lambda>j. map (\<lambda>r. r ! j) (d_rows X)) [0..<d_cols X]\<rparr>"

definition vec_mat :: "real list \<Rightarrow> dmat \<Rightarrow> real list" where
  "vec_mat r W = map (\<lambda>j. sum_list (map2 (\<lambda>x w. x * w ! j) r (d_rows W))) [0..<d_cols W]"

definition dense_matmul :: "dmat \<Rightarrow> dmat \<Rightarrow> py_error + dmat" where
  "dense_matmul A W =
     (if d_cols A = length (d_rows W)
      then Inr \<lparr>d_cols = d_cols W, d_rows = map (\<lambda>r. vec_mat r W) (d_rows A)\<rparr>
      else Inl RuntimeError)"

definition tensor3_matmul :: "tensor3 \<Rightarrow> dmat \<Rightarrow> py_error + tensor3" where
  "tensor3_matmul T W =
     (if t_d2 T = length (d_rows W)
      then Inr \<lparr>t_d1 = t_d1 T, t_d2 = d_cols W,
                t_data = map (map (\<lambda>r. vec_mat r W)) (t_data T)\<rparr>
      else Inl RuntimeError)"

section \<open>The model\<close>

text \<open>
  The fields of \<^verbatim>\<open>SCHBR\<close>.  \<open>training\<close> is the module's train/eval flag, which
  \<^verbatim>\<open>nn.Dropout\<close> consults; a freshly constructed module is in training mode.
\<close>

record schbr =
  num_users :: nat
  num_bundles :: nat
  num_items :: nat
  atom_graph :: "spmat list"
  users_feature :: dmat
  bundles_feature :: dmat
  user_bound :: dmat
  drop_p :: real
  embed_L2_norm :: real
  training :: bool

text \<open>The random draws of \<^verbatim>\<open>normal_\<close> for the three parameters, indexed by position.\<close>

record init_noise =
  noise_users :: "nat \<Rightarrow> nat \<Rightarrow> real"
  noise_bundles :: "nat \<Rightarrow> nat \<Rightarrow> real"
  noise_bound :: "nat \<Rightarrow> nat \<Rightarrow> real"

definition tabulate :: "nat \<Rightarrow> nat \<Rightarrow> (nat \<Rightarrow> nat \<Rightarrow> real) \<Rightarrow> dmat" where
  "tabulate n d f = \<lparr>d_cols = d, d_rows = map (\<lambda>i. map (\<lambda>j. f i j) [0..<d]) [0..<n]\<rparr>"

text \<open>
  \<^verbatim>\<open>SCHBR.__init__\<close>.  The builder and the partitioner are called with their default
  arguments (\<^verbatim>\<open>threshold=10\<close>, \<^verbatim>\<open>split_num=16\<close>); \<open>devices\<close> are the devices of the
  runtime.  A negative \<open>emb_size\<close> fails in
  \<^verbatim>\<open>torch.FloatTensor\<close>, \<open>emb_size = 0\<close> in \<^verbatim>\<open>0.5 / emb_size\<close>, and a dropout
  probability outside \<open>[0, 1]\<close> in \<^verbatim>\<open>nn.Dropout\<close>.
\<close>

definition SCHBR_init ::
  "device list \<Rightarrow> raw_graph \<Rightarrow> device \<Rightarrow> real \<Rightarrow> real \<Rightarrow> int \<Rightarrow> init_noise
     \<Rightarrow> py_error + schbr" where
  "SCHBR_init devices raw dev dp l2_norm emb_size noise =
     (case raw of (ui_graph, bi_graph, ub_graph) \<Rightarrow>
        then_do (mix_Hypergraph raw 10) (\<lambda>H.
        then_do (normalize_HyperGraph H) (\<lambda>H_normalized.
        then_do (Split_HyperGraph devices H_normalized dev 16) (\<lambda>blocks.
          if emb_size < 0 then Inl RuntimeError
          else if emb_size = 0 then Inl ZeroDivisionError
          else if dp < 0 \<or> 1 < dp then Inl ValueError
          else Inr \<lparr>num_users = n_rows ub_graph,
                    num_bundles = n_cols ub_graph,
                    num_items = n_cols ui_graph,
                    atom_graph = blocks,
                    users_feature = tabulate (n_rows ub_graph) (nat emb_size) (noise_users noise),
                    bundles_feature = tabulate (n_cols ub_graph) (nat emb_size) (noise_bundles noise),
                    user_bound = tabulate (nat emb_size) 1 (noise_bound noise),
                    drop_p = dp,
                    embed_L2_norm = l2_norm,
                    training = True\<rparr>))))"

text \<open>
  \<^verbatim>\<open>self.drop\<close>: the identity in evaluation mode; in training mode every element is
  kept and rescaled by \<open>1 / (1 - p)\<close> or zeroed, as the random mask \<open>keep\<close> says
  (everything is zeroed for \<open>p = 1\<close>).
\<close>

definition dropout :: "schbr \<Rightarrow> (nat \<Rightarrow> nat \<Rightarrow> bool) \<Rightarrow> dmat \<Rightarrow> dmat" where
  "dropout m keep X =
     (if training m
      then X\<lparr>d_rows :=
               map (\<lambda>ir. map (\<lambda>jx. if drop_p m < 1 \<and> keep (fst ir) (fst jx)
                                     then snd jx / (1 - drop_p m) else 0)
                              (enumerate 0 (snd ir)))
                   (enumerate 0 (d_rows X))\<rparr>
      else X)"

text \<open>\<^verbatim>\<open>torch.split(all_embeds, [n, k], dim=0)\<close>: the sizes must add up to the row count.\<close>

definition split_rows :: "dmat \<Rightarrow> nat \<Rightarrow> nat \<Rightarrow> py_error + dmat \<times> dmat" where
  "split_rows X n k =
     (if n + k = length (d_rows X)
      then Inr (X\<lparr>d_rows := take n (d_rows X)\<rparr>, X\<lparr>d_rows := drop n (d_rows X)\<rparr>)
      else Inl RuntimeError)"

text \<open>\<^verbatim>\<open>torch.cat([G @ X for G in blocks], dim=0)\<close>.\<close>

definition block_products :: "spmat list \<Rightarrow> dmat \<Rightarrow> py_error + dmat" where
  "block_products blocks X = then_do (traverse (\<lambda>G. sp_matmul_dense G X) blocks) cat_rows"

definition propagate :: "schbr \<Rightarrow> (nat \<Rightarrow> nat \<Rightarrow> bool) \<Rightarrow> py_error + dmat \<times> dmat" where
  "propagate m keep =
     then_do (cat_rows [users_feature m, bundles_feature m]) (\<lambda>embed_0.
     then_do (block_products (atom_graph m) embed_0)
       (\<lambda>embed_1.
     then_do (add_dense (div_scalar embed_0 2) (div_scalar (dropout m keep embed_1) 2))
       (\<lambda>all_embeds.
     split_rows all_embeds (num_users m) (num_bundles m))))"

text \<open>
  Broadcasting of one dimension of two operands: equal sizes, or one of them \<open>1\<close>, which
  is then repeated.
\<close>

definition bdim :: "nat \<Rightarrow> nat \<Rightarrow> nat option" where
  "bdim a b = (if a = b then Some a else if a = 1 then Some b else if b = 1 then Some a else None)"

definition stretch :: "nat \<Rightarrow> 'a list \<Rightarrow> 'a list" where
  "stretch n xs = (if length xs = n then xs else replicate n (hd xs))"

text \<open>
  \<^verbatim>\<open>predict\<close>: the elementwise product of two three-dimensional tensors, each dimension
  broadcast, summed over the last dimension.
\<close>

definition predict :: "tensor3 \<Rightarrow> tensor3 \<Rightarrow> py_error + dmat" where
  "predict A B =
     (case (bdim (length (t_data A)) (length (t_data B)),
            bdim (t_d1 A) (t_d1 B), bdim (t_d2 A) (t_d2 B)) of
        (Some n0, Some n1, Some n2) \<Rightarrow>
          Inr \<lparr>d_cols = n1,
               d_rows = map2 (map2 (\<lambda>u v. sum_list (map2 (*) (stretch n2 u) (stretch n2 v))))
                             (map (stretch n1) (stretch n0 (t_data A)))
                             (map (stretch n1) (stretch n0 (t_data B)))\<rparr>
      | _ \<Rightarrow> Inl RuntimeError)"

definition sum_squares :: "dmat \<Rightarrow> real" where
  "sum_squares X = sum_list (map (\<lambda>r. sum_list (map (\<lambda>x. x\<^sup>2) r)) (d_rows X))"

definition regularize :: "schbr \<Rightarrow> dmat \<Rightarrow> dmat \<Rightarrow> real" where
  "regularize m users_f bundles_f =
     embed_L2_norm m * (sum_squares users_f + sum_squares bundles_f)"

text \<open>
  \<^verbatim>\<open>forward\<close>, for two-dimensional index tensors: the rank at which
  \<^verbatim>\<open>expand(-1, bundles.shape[1], -1)\<close> is defined.  The user rows are gathered twice, as in
  the source, and \<^verbatim>\<open>regularize\<close> receives the two tables that \<^verbatim>\<open>propagate\<close> returned.
\<close>

definition forward ::
  "schbr \<Rightarrow> (nat \<Rightarrow> nat \<Rightarrow> bool) \<Rightarrow> idx2 \<Rightarrow> idx2 \<Rightarrow> py_error + dmat \<times> tensor3 \<times> real" where
  "forward m keep users bundles =
     then_do (propagate m keep) (\<lambda>(users_f, bundles_f).
     then_do (then_do (gather2 users_f users) (\<lambda>T. expand_mid T (i_cols bundles)))
       (\<lambda>users_embedding.
     then_do (gather2 bundles_f bundles) (\<lambda>bundles_embedding.
     then_do (predict users_embedding bundles_embedding) (\<lambda>pred.
     let loss = regularize m users_f bundles_f
     in then_do (then_do (gather2 users_f users) (\<lambda>T. tensor3_matmul T (user_bound m)))
          (\<lambda>user_score_bound.
        Inr (pred, user_score_bound, loss))))))"

text \<open>\<^verbatim>\<open>evaluate\<close>, for a one-dimensional batch of user indices.\<close>

definition evaluate :: "dmat \<times> dmat \<Rightarrow> int list \<Rightarrow> py_error + dmat" where
  "evaluate propagate_result users =
     (case propagate_result of (users_f, bundles_f) \<Rightarrow>
        then_do (gather1 users_f users) (\<lambda>users_g.
        dense_matmul users_g (dense_T bundles_f)))"

section \<open>Notions of the specification\<close>

text \<open>The row range \<open>[block_lo, block_hi)\<close> the specification assigns to partition \<open>i\<close> of
  \<open>P\<close> for an operator with \<open>N\<close> rows.\<close>

definition block_lo :: "nat \<Rightarrow> nat \<Rightarrow> nat \<Rightarrow> nat" where
  "block_lo N P i = i * (N div P)"

definition block_hi :: "nat \<Rightarrow> nat \<Rightarrow> nat \<Rightarrow> nat" where
  "block_hi N P i = (if i = P - 1 then N else (i + 1) * (N div P))"

text \<open>The dot product of two feature rows of width \<open>d\<close>.\<close>

definition dot :: "nat \<Rightarrow> real list \<Rightarrow> real list \<Rightarrow> real" where
  "dot d u v = (\<Sum>i<d. u ! i * v ! i)"

text \<open>
  The invariants of a model (section 3 of the specification): the tables have one positive
  width and \<open>|U|\<close> and \<open>|B|\<close> rows, and the blocks are a non-empty row partition of a
  well-formed operator with \<open>|U| + |B|\<close> rows and columns, every block holding at least
  one row.
\<close>

definition wf_model :: "schbr \<Rightarrow> bool" where
  "wf_model m =
     (wf_dmat (users_feature m) \<and> wf_dmat (bundles_feature m) \<and>
      d_cols (users_feature m) = d_cols (bundles_feature m) \<and>
      0 < d_cols (users_feature m) \<and>
      length (d_rows (users_feature m)) = num_users m \<and>
      length (d_rows (bundles_feature m)) = num_bundles m \<and>
      atom_graph m \<noteq> [] \<and>
      list_all (\<lambda>G. 0 < n_rows G \<and> n_cols G = num_users m + num_bundles m \<and> wf_spmat G)
        (atom_graph m) \<and>
      sum_list (map n_rows (atom_graph m)) = num_users m + num_bundles m)"

text \<open>\<open>embed_0\<close>: the user table stacked on the bundle table.\<close>

definition embed_0 :: "schbr \<Rightarrow> dmat" where
  "embed_0 m = \<lparr>d_cols = d_cols (users_feature m),
               d_rows = d_rows (users_feature m) @ d_rows (bundles_feature m)\<rparr>"

text \<open>The rows of the operator that a list of blocks partitions.\<close>

definition operator_rows :: "spmat list \<Rightarrow> sprow list" where
  "operator_rows blocks = concat (map sprows blocks)"

text \<open>The operator with \<open>n\<close> columns is the zero matrix: each of its entries is zero.\<close>

definition zero_operator :: "nat \<Rightarrow> spmat list \<Rightarrow> bool" where
  "zero_operator n blocks =
     list_all (\<lambda>r. list_all (\<lambda>k. row_entry r k = 0) [0..<n]) (operator_rows blocks)"

text \<open>Index tensors whose rows have the declared width and whose indices lie in \<open>[0, n)\<close>.\<close>

definition valid_idx :: "nat \<Rightarrow> idx2 \<Rightarrow> bool" where
  "valid_idx n idx =
     list_all (\<lambda>row. length row = i_cols idx \<and> list_all (\<lambda>i. 0 \<le> i \<and> i < int n) row)
       (i_rows idx)"

text \<open>
  The penalty the specification describes for \<^verbatim>\<open>forward\<close>: \<open>\<lambda>\<close> times the sum of squares of
  the rows gathered for the batch.
\<close>

definition sum_squares3 :: "tensor3 \<Rightarrow> real" where
  "sum_squares3 T =
     sum_list (map (\<lambda>b. sum_list (map (\<lambda>r. sum_list (map (\<lambda>x. x\<^sup>2) r)) b)) (t_data T))"

definition gathered_regularization ::
  "schbr \<Rightarrow> (nat \<Rightarrow> nat \<Rightarrow> bool) \<Rightarrow> idx2 \<Rightarrow> idx2 \<Rightarrow> py_error + real" where
  "gathered_regularization m keep users bundles =
     then_do (propagate m keep) (\<lambda>(users_f, bundles_f).
     then_do (gather2 users_f users) (\<lambda>users_g.
     then_do (gather2 bundles_f bundles) (\<lambda>bundles_g.
     Inr (embed_L2_norm m * (sum_squares3 users_g + sum_squares3 bundles_g)))))"

section \<open>Closed forms of the results\<close>

text \<open>
  What the stacking, product, builder, normaliser and partitioner return when they do not
  raise; the lemmas below connect each of them to the function of the source.
\<close>

definition stack_v :: "spmat \<Rightarrow> spmat \<Rightarrow> spmat" where
  "stack_v A B = \<lparr>n_cols = n_cols A, sprows = sprows A @ sprows B\<rparr>"

definition stack_h :: "spmat \<Rightarrow> spmat \<Rightarrow> spmat" where
  "stack_h A B =
     \<lparr>n_cols = n_cols A + n_cols B,
      sprows = map2 (\<lambda>ra rb. ra @ map (\<lambda>kv. (fst kv + n_cols A, snd kv)) rb)
                    (sprows A) (sprows B)\<rparr>"

definition shift_h :: "spmat \<Rightarrow> spmat \<Rightarrow> spmat" where
  "shift_h A B =
     \<lparr>n_cols = n_cols A + n_cols B,
      sprows = map (map (\<lambda>kv. (fst kv + n_cols A, snd kv))) (sprows B)\<rparr>"

definition product :: "spmat \<Rightarrow> spmat \<Rightarrow> spmat" where
  "product A B = \<lparr>n_cols = n_cols B, sprows = map (\<lambda>r. spmm_row r B) (sprows A)\<rparr>"

definition user_similarity :: "spmat \<Rightarrow> real \<Rightarrow> spmat" where
  "user_similarity ub t = binarize_rows (n_rows ub) t (product ub (transpose_sp ub))"

definition bundle_similarity :: "spmat \<Rightarrow> real \<Rightarrow> spmat" where
  "bundle_similarity ub t = binarize_rows (n_cols ub) t (product (transpose_sp ub) ub)"

definition incidence :: "raw_graph \<Rightarrow> real \<Rightarrow> spmat" where
  "incidence raw t =
     (case raw of (ui, bi, ub) \<Rightarrow>
        stack_h (stack_v ui bi)
          (stack_h (stack_v (user_similarity ub t) (transpose_sp ub))
                   (stack_v ub (bundle_similarity ub t))))"

definition incidence_rowless :: "raw_graph \<Rightarrow> real \<Rightarrow> spmat" where
  "incidence_rowless raw t =
     (case raw of (ui, bi, ub) \<Rightarrow>
        shift_h (stack_v ui bi)
          (stack_h (stack_v (user_similarity ub t) (transpose_sp ub))
                   (stack_v ub (bundle_similarity ub t))))"

definition deg_inv :: "real list \<Rightarrow> real list" where
  "deg_inv ds = map (\<lambda>d. 1 / (sqrt d + eps)) ds"

definition normalized :: "spmat \<Rightarrow> spmat" where
  "normalized H =
     product (product (product (product (diags (deg_inv (row_sums H))) H)
                               (diags (deg_inv (col_sums H))))
                      (transpose_sp H))
             (diags (deg_inv (row_sums H)))"

definition blocks_of :: "spmat \<Rightarrow> nat \<Rightarrow> spmat list" where
  "blocks_of H P =
     map (\<lambda>i. row_slice H (block_lo (n_rows H) P i) (block_hi (n_rows H) P i)) [0..<P]"

section \<open>Concrete inputs\<close>

text \<open>A five-row operator and a dense operand.\<close>

definition ex_operator :: spmat where
  "ex_operator = \<lparr>n_cols = 2, sprows = [[(0, 1)], [(1, 2)], [], [(0, 3), (1, 4)], [(1, 5)]]\<rparr>"

definition ex_dense :: dmat where
  "ex_dense = \<lparr>d_cols = 2, d_rows = [[1, 2], [3, 4]]\<rparr>"

text \<open>Feature tables for two users and five bundles.\<close>

definition ex_users_f :: dmat where
  "ex_users_f = \<lparr>d_cols = 2, d_rows = [[1, 2], [3, 4]]\<rparr>"

definition ex_bundles_f :: dmat where
  "ex_bundles_f = \<lparr>d_cols = 2, d_rows = [[1, 0], [0, 1], [1, 1], [2, 0], [0, 0]]\<rparr>"

text \<open>
  Small models: one in training mode with a stored zero; one with a two-block operator in
  evaluation mode and the same in training mode, with a mask that keeps the diagonal; one in
  evaluation mode with two users and an operator that stores nothing; a mask that keeps
  everything; a batch of one pair.
\<close>

definition ex_model :: schbr where
  "ex_model =
     \<lparr>num_users = 1, num_bundles = 1, num_items = 1,
      atom_graph = [\<lparr>n_cols = 2, sprows = [[(0, 0)], []]\<rparr>],
      users_feature = \<lparr>d_cols = 2, d_rows = [[2, 4]]\<rparr>,
      bundles_feature = \<lparr>d_cols = 2, d_rows = [[6, 8]]\<rparr>,
      user_bound = \<lparr>d_cols = 1, d_rows = [[1], [1]]\<rparr>,
      drop_p = 1 / 2, embed_L2_norm = 1, training = True\<rparr>"

definition ex_model_op :: schbr where
  "ex_model_op =
     \<lparr>num_users = 1, num_bundles = 1, num_items = 1,
      atom_graph = [\<lparr>n_cols = 2, sprows = [[(0, 1), (1, 2)]]\<rparr>,
                    \<lparr>n_cols = 2, sprows = [[(1, 3)]]\<rparr>],
      users_feature = \<lparr>d_cols = 2, d_rows = [[2, 4]]\<rparr>,
      bundles_feature = \<lparr>d_cols = 2, d_rows = [[6, 8]]\<rparr>,
      user_bound = \<lparr>d_cols = 1, d_rows = [[1], [1]]\<rparr>,
      drop_p = 1 / 2, embed_L2_norm = 1, training = False\<rparr>"

definition ex_model_train :: schbr where
  "ex_model_train = ex_model_op\<lparr>training := True\<rparr>"

definition keep_diag :: "nat \<Rightarrow> nat \<Rightarrow> bool" where
  "keep_diag i j = (i = j)"

definition keep_all :: "nat \<Rightarrow> nat \<Rightarrow> bool" where
  "keep_all i j = True"

definition ex_model2 :: schbr where
  "ex_model2 =
     \<lparr>num_users = 2, num_bundles = 1, num_items = 1,
      atom_graph = [\<lparr>n_cols = 3, sprows = [[], [], []]\<rparr>],
      users_feature = \<lparr>d_cols = 1, d_rows = [[2], [4]]\<rparr>,
      bundles_feature = \<lparr>d_cols = 1, d_rows = [[6]]\<rparr>,
      user_bound = \<lparr>d_cols = 1, d_rows = [[1]]\<rparr>,
      drop_p = 0, embed_L2_norm = 1, training = False\<rparr>"

definition ex_batch_users :: idx2 where
  "ex_batch_users = \<lparr>i_cols = 1, i_rows = [[0]]\<rparr>"

definition ex_batch_bundles :: idx2 where
  "ex_batch_bundles = \<lparr>i_cols = 1, i_rows = [[0]]\<rparr>"

text \<open>
  The scenario of the specification (two users, two bundles, two items, co-occurrence counts
  \<open>4\<close> and \<open>400\<close>) with the incidence structure it yields at threshold \<open>10\<close>, a
  user-bundle relation of one user whose co-occurrence count \<open>13\<close> is a sum of two
  products, and relations of other shapes.
\<close>

definition ex_ui :: spmat where
  "ex_ui = \<lparr>n_cols = 2, sprows = [[(0, 1)], [(1, 1)]]\<rparr>"

definition ex_bi :: spmat where
  "ex_bi = \<lparr>n_cols = 2, sprows = [[(0, 1), (1, 1)], []]\<rparr>"

definition ex_ub :: spmat where
  "ex_ub = \<lparr>n_cols = 2, sprows = [[(0, 2)], [(1, 20)]]\<rparr>"

definition ex_ub_row :: spmat where
  "ex_ub_row = \<lparr>n_cols = 2, sprows = [[(0, 3), (1, 2)]]\<rparr>"

definition ex_H :: spmat where
  "ex_H = \<lparr>n_cols = 6,
           sprows = [[(0, 1), (2, 0), (4, 2)], [(1, 1), (3, 1), (5, 20)],
                     [(0, 1), (1, 1), (2, 2), (4, 0)], [(3, 20), (5, 1)]]\<rparr>"



definition ex_bi_wide :: spmat where
  "ex_bi_wide = \<lparr>n_cols = 3, sprows = [[(0, 1), (2, 1)], []]\<rparr>"

text \<open>Fixed draws for the initial parameters.\<close>

definition ex_noise :: init_noise where
  "ex_noise = \<lparr>noise_users = (\<lambda>i j. 1 / 128), noise_bundles = (\<lambda>i j. - 1 / 128),
               noise_bound = (\<lambda>i j. 1 / 256)\<rparr>"

text \<open>An incidence matrix whose row sums and column sums are \<open>0\<close> or \<open>1\<close>.\<close>

definition ex_small_H :: spmat where
  "ex_small_H = \<lparr>n_cols = 3, sprows = [[(1, 0), (2, 1)], [(1, 1), (2, 0)]]\<rparr>"

section \<open>The partitioner\<close>


lemma concat_regular_slices:
  "L * P \<le> length xs \<Longrightarrow>
   concat (map (\<lambda>i. take (L * (i + 1) - L * i) (drop (L * i) xs)) [0..<P]) = take (L * P) xs"
proof (induction P)
  case 0
  then show ?case by simp
next
  case (Suc P)
  then have "L * P \<le> length xs" by simp
  with Suc.IH have ih: "concat (map (\<lambda>i. take (L * (i + 1) - L * i) (drop (L * i) xs)) [0..<P]) = take (L * P) xs"
    by simp
  have "L * Suc P = L * P + L" by simp
  then have "take (L * Suc P) xs = take (L * P) xs @ take L (drop (L * P) xs)"
    by (simp only: take_add)
  with ih show ?case by simp
qed

lemma then_do_Inr: "then_do (Inr x) f = f x"
  by (simp add: then_do_def)

lemma then_do_Inl: "then_do (Inl e) f = Inl e"
  by (simp add: then_do_def)

lemma traverse_all_Inr:
  "(\<And>x. x \<in> set xs \<Longrightarrow> f x = Inr (g x)) \<Longrightarrow> traverse f xs = Inr (map g xs)"
  by (induction xs) auto

lemma traverse_first_Inl: "f x = Inl e \<Longrightarrow> traverse f (x # xs) = Inl e"
  by simp

lemma Split_slices:
  assumes "1 \<le> P"
  shows "Split_HyperGraph devices H dev (int P) =
           traverse (\<lambda>H_i. to_device devices dev (from_scipy H_i)) (blocks_of H P)"
proof -
  have d: "nat (int (n_rows H) div int P) = n_rows H div P"
    by (simp add: nat_div_distrib)
  have c: "\<And>i. (int i = int P - 1) = (i = P - 1)"
    using assms by auto
  have "map (\<lambda>i. if int i = int P - 1
                 then row_slice H (nat (int (n_rows H) div int P) * i) (n_rows H)
                 else row_slice H (nat (int (n_rows H) div int P) * i)
                        (nat (int (n_rows H) div int P) * (i + 1))) [0..<P]
        = blocks_of H P"
    unfolding blocks_of_def d c
    by (rule map_cong) (auto simp: block_lo_def block_hi_def mult.commute)
  then show ?thesis
    using assms by (simp add: Split_HyperGraph_def Let_def)
qed

lemma Split_blocks:
  assumes "1 \<le> P" "dev \<in> set devices"
  shows "Split_HyperGraph devices H dev (int P) = Inr (blocks_of H P)"
proof -
  have "traverse (\<lambda>H_i. to_device devices dev (from_scipy H_i)) (blocks_of H P)
        = Inr (map (\<lambda>H_i. H_i) (blocks_of H P))"
    by (rule traverse_all_Inr) (simp add: to_device_def from_scipy_def assms(2))
  then show ?thesis by (simp add: Split_slices[OF assms(1)])
qed

lemma Split_no_device:
  assumes "1 \<le> P" "dev \<notin> set devices"
  shows "Split_HyperGraph devices H dev (int P) = Inl RuntimeError"
proof -
  obtain b bs where "blocks_of H P = b # bs"
    using assms(1) by (cases "blocks_of H P") (auto simp: blocks_of_def)
  then show ?thesis
    by (simp add: Split_slices[OF assms(1)] to_device_def assms(2))
qed

lemma concat_blocks:
  assumes "1 \<le> P"
  shows "concat (map (\<lambda>i. take (block_hi (length xs) P i - block_lo (length xs) P i)
                              (drop (block_lo (length xs) P i) xs)) [0..<P]) = xs"
proof -
  let ?N = "length xs"
  let ?L = "?N div P"
  obtain Q where Q: "P = Suc Q" using assms by (cases P) auto
  have le: "?L * Q \<le> ?N"
  proof -
    have "?L * Q \<le> ?L * P" using Q by simp
    also have "\<dots> \<le> ?N" by (simp add: mult.commute)
    finally show ?thesis .
  qed
  have reg: "map (\<lambda>i. take (block_hi ?N P i - block_lo ?N P i) (drop (block_lo ?N P i) xs)) [0..<Q]
           = map (\<lambda>i. take (?L * (i + 1) - ?L * i) (drop (?L * i) xs)) [0..<Q]"
    by (rule map_cong) (auto simp: block_hi_def block_lo_def Q mult.commute)
  have last: "take (block_hi ?N P Q - block_lo ?N P Q) (drop (block_lo ?N P Q) xs) = drop (?L * Q) xs"
    by (simp add: block_hi_def block_lo_def Q mult.commute)
  let ?f = "\<lambda>i. take (block_hi ?N P i - block_lo ?N P i) (drop (block_lo ?N P i) xs)"
  have "concat (map ?f [0..<P]) = concat (map ?f [0..<Q]) @ ?f Q"
    by (simp add: Q)
  also have "\<dots> = take (?L * Q) xs @ drop (?L * Q) xs"
    by (simp only: reg last concat_regular_slices[OF le])
  finally show ?thesis by simp
qed


lemma block_bounds:
  assumes "1 \<le> P" "i < P"
  shows "block_lo N P i \<le> block_hi N P i" "block_hi N P i \<le> N"
proof -
  have a: "i * (N div P) \<le> P * (N div P)" using assms by simp
  have b: "P * (N div P) \<le> N" by simp
  have c: "i * (N div P) \<le> N" using a b by (rule le_trans)
  then show "block_lo N P i \<le> block_hi N P i"
    by (auto simp: block_lo_def block_hi_def)
  have "(i + 1) * (N div P) \<le> P * (N div P)" using assms by (intro mult_le_mono1) simp
  then have "(i + 1) * (N div P) \<le> N" using b by (rule le_trans)
  then show "block_hi N P i \<le> N"
    by (simp add: block_hi_def del: mult_Suc add_mult_distrib)
qed

lemma block_size_pos:
  assumes "1 \<le> P" "P \<le> N" "i < P"
  shows "block_lo N P i < block_hi N P i"
proof -
  have L: "1 \<le> N div P" using assms(1,2) by (simp add: Suc_le_eq div_greater_zero_iff)
  have b: "P * (N div P) \<le> N" by simp
  show ?thesis
  proof (cases "i = P - 1")
    case False
    then show ?thesis using L by (simp add: block_lo_def block_hi_def)
  next
    case True
    have "(P - 1) * (N div P) + N div P = P * (N div P)"
      using assms(1) by (simp add: algebra_simps mult_eq_if)
    with b L have "(P - 1) * (N div P) < N" by linarith
    with True show ?thesis by (simp add: block_lo_def block_hi_def)
  qed
qed



lemma sp_matmul_dense_value:
  assumes "0 < n_rows G" "list_all (wf_row (length (d_rows X))) (sprows G)"
    and "0 < length (d_rows X)" "0 < d_cols X"
  shows "sp_matmul_dense G X
         = Inr \<lparr>d_cols = d_cols X, d_rows = map (\<lambda>r. sp_row_times r X) (sprows G)\<rparr>"
  using assms by (simp add: sp_matmul_dense_def)

lemma cat_rows_products:
  assumes "bs \<noteq> []"
  shows "cat_rows (map (\<lambda>G. \<lparr>d_cols = d, d_rows = f G\<rparr>) bs)
         = Inr \<lparr>d_cols = d, d_rows = concat (map f bs)\<rparr>"
proof -
  obtain b bs' where "bs = b # bs'" using assms by (cases bs) auto
  then show ?thesis by (simp add: cat_rows_def list_all_iff o_def)
qed

lemma block_products_value:
  assumes "bs \<noteq> []"
    and "\<And>b. b \<in> set bs \<Longrightarrow>
           0 < n_rows b \<and> list_all (wf_row (length (d_rows X))) (sprows b)"
    and "0 < length (d_rows X)" "0 < d_cols X"
  shows "block_products bs X
         = Inr \<lparr>d_cols = d_cols X, d_rows = map (\<lambda>r. sp_row_times r X) (operator_rows bs)\<rparr>"
proof -
  let ?g = "\<lambda>G. \<lparr>d_cols = d_cols X, d_rows = map (\<lambda>r. sp_row_times r X) (sprows G)\<rparr>"
  have "traverse (\<lambda>G. sp_matmul_dense G X) bs = Inr (map ?g bs)"
  proof (rule traverse_all_Inr)
    fix b assume "b \<in> set bs"
    from assms(2)[OF this] show "sp_matmul_dense b X = Inr (?g b)"
      by (intro sp_matmul_dense_value assms(3,4)) simp_all
  qed
  then show ?thesis
    by (simp add: block_products_def then_do_Inr cat_rows_products[OF assms(1)]
        operator_rows_def map_concat o_def)
qed




text \<open>
  Six partitions of a five-row operator: five blocks without rows and the whole operator.
  The operator times the operand is defined; the first block product kills the process.
\<close>

theorem Split_HyperGraph_partition_counterexample:
  "Split_HyperGraph [''cpu''] ex_operator ''cpu'' 6
     = Inr (replicate 5 \<lparr>n_cols = 2, sprows = []\<rparr> @ [ex_operator]) \<and>
   block_products (replicate 5 \<lparr>n_cols = 2, sprows = []\<rparr> @ [ex_operator]) ex_dense
     = Inl Killed \<and>
   sp_matmul_dense ex_operator ex_dense
     = Inr \<lparr>d_cols = 2, d_rows = [[1, 2], [6, 8], [0, 0], [15, 22], [15, 20]]\<rparr>"
proof -
  have u: "[0..<6] = [0, 1, 2, 3, 4, 5]" by (simp add: upt_rec)
  have "Split_HyperGraph [''cpu''] ex_operator ''cpu'' 6
     = Inr (replicate 5 \<lparr>n_cols = 2, sprows = []\<rparr> @ [ex_operator])"
    by (simp add: Split_HyperGraph_def Let_def n_rows_def ex_operator_def u row_slice_def
        to_device_def from_scipy_def numeral_eq_Suc)
  moreover have "block_products (replicate 5 \<lparr>n_cols = 2, sprows = []\<rparr> @ [ex_operator]) ex_dense
     = Inl Killed"
    by (simp add: block_products_def sp_matmul_dense_def n_rows_def then_do_def numeral_eq_Suc)
  moreover have "sp_matmul_dense ex_operator ex_dense
      = Inr \<lparr>d_cols = 2, d_rows = [[1, 2], [6, 8], [0, 0], [15, 22], [15, 20]]\<rparr>"
    by (simp add: sp_matmul_dense_def n_rows_def ex_operator_def ex_dense_def wf_row_def
        sp_row_times_def axpy_def eval_nat_numeral)
  ultimately show ?thesis by simp
qed

section \<open>Full-catalogue scoring\<close>

lemma get_row_valid:
  "0 \<le> u \<Longrightarrow> u < int (length (d_rows F)) \<Longrightarrow> get_row F u = Inr (d_rows F ! nat u)"
  by (simp add: get_row_def Let_def)

lemma gather1_valid:
  assumes "\<And>u. u \<in> set users \<Longrightarrow> 0 \<le> u \<and> u < int (length (d_rows F))"
  shows "gather1 F users = Inr \<lparr>d_cols = d_cols F, d_rows = map (\<lambda>u. d_rows F ! nat u) users\<rparr>"
proof -
  have "traverse (get_row F) users = Inr (map (\<lambda>u. d_rows F ! nat u) users)"
    by (rule traverse_all_Inr) (simp add: get_row_valid assms)
  then show ?thesis by (simp add: gather1_def then_do_def)
qed

lemma sum_list_zip_upt:
  assumes "length xs = n"
  shows "sum_list (map2 f xs (map g [0..<n])) = (\<Sum>j<n. f (xs ! j) (g j))"
proof -
  have "map2 f xs (map g [0..<n]) = map (\<lambda>j. f (xs ! j) (g j)) [0..<n]"
    using assms by (intro nth_equalityI) auto
  then show ?thesis
    by (simp add: interv_sum_list_conv_sum_set_nat atLeast0LessThan)
qed

lemma vec_mat_dense_T:
  assumes "length r = d_cols W" "b < length (d_rows W)"
  shows "vec_mat r (dense_T W) ! b = dot (d_cols W) r (d_rows W ! b)"
proof -
  have "vec_mat r (dense_T W) ! b
        = sum_list (map2 (\<lambda>x w. x * w ! b) r
                      (map (\<lambda>j. map (\<lambda>r. r ! j) (d_rows W)) [0..<d_cols W]))"
    using assms(2) by (simp add: vec_mat_def dense_T_def)
  also have "\<dots> = (\<Sum>j<d_cols W. r ! j * map (\<lambda>r. r ! j) (d_rows W) ! b)"
    by (rule sum_list_zip_upt[OF assms(1)])
  also have "\<dots> = dot (d_cols W) r (d_rows W ! b)"
    using assms(2) by (simp add: dot_def)
  finally show ?thesis .
qed

text \<open>
  C9.  For feature tables of one width and a batch of user indices in \<open>[0, |U|)\<close>,
  \<open>evaluate\<close> returns a matrix with one row per batch position and one column per
  bundle, whose entry \<open>(k, b)\<close> is the dot product of the feature row of user
  \<open>users[k]\<close> with the feature row of bundle \<open>b\<close>.
\<close>

theorem evaluate_scores:
  assumes "wf_dmat users_f" and "d_cols users_f = d_cols bundles_f"
    and "\<forall>u \<in> set users. 0 \<le> u \<and> u < int (length (d_rows users_f))"
  shows "\<exists>S. evaluate (users_f, bundles_f) users = Inr S \<and>
           d_cols S = length (d_rows bundles_f) \<and>
           length (d_rows S) = length users \<and>
           (\<forall>k < length users.
              length (d_rows S ! k) = length (d_rows bundles_f) \<and>
              (\<forall>b < length (d_rows bundles_f).
                 d_rows S ! k ! b =
                   dot (d_cols users_f) (d_rows users_f ! nat (users ! k)) (d_rows bundles_f ! b)))"
proof -
  let ?G = "\<lparr>d_cols = d_cols users_f, d_rows = map (\<lambda>u. d_rows users_f ! nat u) users\<rparr>"
  let ?S = "\<lparr>d_cols = d_cols (dense_T bundles_f),
             d_rows = map (\<lambda>r. vec_mat r (dense_T bundles_f)) (d_rows ?G)\<rparr>"
  have g: "gather1 users_f users = Inr ?G"
    using assms(3) by (intro gather1_valid) simp
  have "dense_matmul ?G (dense_T bundles_f) = Inr ?S"
    by (simp add: dense_matmul_def dense_T_def assms(2))
  then have ev: "evaluate (users_f, bundles_f) users = Inr ?S"
    by (simp add: evaluate_def g then_do_def)
  have entry: "d_rows ?S ! k ! b =
      dot (d_cols users_f) (d_rows users_f ! nat (users ! k)) (d_rows bundles_f ! b)"
    if "k < length users" "b < length (d_rows bundles_f)" for k b
  proof -
    have "users ! k \<in> set users" using that(1) by simp
    with assms(3) have "nat (users ! k) < length (d_rows users_f)" by auto
    then have "d_rows users_f ! nat (users ! k) \<in> set (d_rows users_f)" by simp
    with assms(1) have "length (d_rows users_f ! nat (users ! k)) = d_cols bundles_f"
      by (simp add: wf_dmat_def list_all_iff assms(2))
    from vec_mat_dense_T[OF this that(2)] show ?thesis
      using that(1) by (simp add: assms(2))
  qed
  have len: "length (d_rows ?S ! k) = length (d_rows bundles_f)" if "k < length users" for k
    using that by (simp add: vec_mat_def dense_T_def)
  show ?thesis
    using ev entry len by (intro exI[of _ ?S]) (simp add: dense_T_def)
qed

theorem evaluate_scores_witness:
  "wf_dmat ex_users_f \<and> d_cols ex_users_f = d_cols ex_bundles_f \<and>
   (0::int) \<le> 1 \<and> 1 < int (length (d_rows ex_users_f)) \<and>
   evaluate (ex_users_f, ex_bundles_f) [1] = Inr \<lparr>d_cols = 5, d_rows = [[3, 4, 7, 6, 0]]\<rparr> \<and>
   dot (d_cols ex_users_f) (d_rows ex_users_f ! nat ([1] ! 0)) (d_rows ex_bundles_f ! 2) = 7"
proof -
  have h1: "wf_dmat ex_users_f" by (simp add: wf_dmat_def ex_users_f_def)
  have h2: "d_cols ex_users_f = d_cols ex_bundles_f" by (simp add: ex_users_f_def ex_bundles_f_def)
  have h3: "\<forall>u \<in> set [1]. 0 \<le> u \<and> u < int (length (d_rows ex_users_f))"
    by (simp add: ex_users_f_def)
  from evaluate_scores[OF h1 h2 h3] obtain S where
    S: "evaluate (ex_users_f, ex_bundles_f) [1] = Inr S"
      "d_cols S = length (d_rows ex_bundles_f)" "length (d_rows S) = length [1::int]"
      "\<forall>k < length [1::int].
              length (d_rows S ! k) = length (d_rows ex_bundles_f) \<and>
              (\<forall>b < length (d_rows ex_bundles_f).
                 d_rows S ! k ! b =
                   dot (d_cols ex_users_f) (d_rows ex_users_f ! nat ([1] ! k)) (d_rows ex_bundles_f ! b))"
    by blast
  have d: "dot (d_cols ex_users_f) (d_rows ex_users_f ! nat ([1] ! 0)) (d_rows ex_bundles_f ! 2) = 7"
    by (simp add: dot_def ex_users_f_def ex_bundles_f_def lessThan_Suc numeral_2_eq_2)
  have e: "evaluate (ex_users_f, ex_bundles_f) [1] = Inr \<lparr>d_cols = 5, d_rows = [[3, 4, 7, 6, 0]]\<rparr>"
    by (simp add: evaluate_def gather1_def then_do_def get_row_def dense_matmul_def dense_T_def
        vec_mat_def ex_users_f_def ex_bundles_f_def upt_rec)
  from S(4) d e S(1) have "d_rows S ! 0 ! 2 = 7" by simp
  moreover have "(0::int) \<le> 1 \<and> 1 < int (length (d_rows ex_users_f))"
    by (simp add: ex_users_f_def)
  ultimately show ?thesis using h1 h2 d e by simp
qed


section \<open>Entries of stacked and transposed matrices\<close>

lemma row_entry_append: "row_entry (r1 @ r2) c = row_entry r1 c + row_entry r2 c"
  by (simp add: row_entry_def)

lemma row_entry_Nil: "row_entry [] c = 0"
  by (simp add: row_entry_def)

lemma row_entry_Cons:
  "row_entry (kv # r) c = (if fst kv = c then snd kv else 0) + row_entry r c"
  by (simp add: row_entry_def)

lemma row_entry_outside: "wf_row n r \<Longrightarrow> n \<le> c \<Longrightarrow> row_entry r c = 0"
  by (induction r) (auto simp: row_entry_Nil row_entry_Cons wf_row_def)

lemma row_entry_shift:
  "row_entry (map (\<lambda>kv. (fst kv + n, snd kv)) r) c = (if c < n then 0 else row_entry r (c - n))"
  by (induction r) (auto simp: row_entry_Nil row_entry_Cons)

lemma wf_row_mono: "wf_row n r \<Longrightarrow> n \<le> n' \<Longrightarrow> wf_row n' r"
  by (auto simp: wf_row_def list_all_iff)

lemma wf_row_shift: "wf_row k r \<Longrightarrow> wf_row (n + k) (map (\<lambda>kv. (fst kv + n, snd kv)) r)"
  by (auto simp: wf_row_def list_all_iff)

lemma wf_row_append: "wf_row n (r1 @ r2) = (wf_row n r1 \<and> wf_row n r2)"
  by (simp add: wf_row_def)

lemma sp_vstack_value:
  "n_cols A = n_cols B \<Longrightarrow>
   sp_vstack A B = Inr \<lparr>n_cols = n_cols A, sprows = sprows A @ sprows B\<rparr>"
  by (simp add: sp_vstack_def)

lemma sp_hstack_value:
  "n_rows A = n_rows B \<Longrightarrow>
   sp_hstack A B =
     Inr \<lparr>n_cols = n_cols A + n_cols B,
          sprows = map2 (\<lambda>ra rb. ra @ map (\<lambda>kv. (fst kv + n_cols A, snd kv)) rb)
                        (sprows A) (sprows B)\<rparr>"
  by (auto simp: sp_hstack_def n_rows_def)

lemma entry_vstack:
  "entry \<lparr>n_cols = n, sprows = sprows A @ sprows B\<rparr> r c =
     (if r < n_rows A then entry A r c else entry B (r - n_rows A) c)"
  by (simp add: entry_def n_rows_def nth_append)

lemma entry_hstack:
  assumes "n_rows A = n_rows B" "r < n_rows A" "wf_spmat A"
  shows "entry \<lparr>n_cols = n,
                sprows = map2 (\<lambda>ra rb. ra @ map (\<lambda>kv. (fst kv + n_cols A, snd kv)) rb)
                              (sprows A) (sprows B)\<rparr> r c =
         (if c < n_cols A then entry A r c else entry B r (c - n_cols A))"
proof -
  from assms(2,3) have "wf_row (n_cols A) (sprows A ! r)"
    by (simp add: wf_spmat_def list_all_length n_rows_def)
  then have "n_cols A \<le> c \<Longrightarrow> row_entry (sprows A ! r) c = 0"
    by (rule row_entry_outside)
  with assms(1,2) show ?thesis
    by (simp add: entry_def n_rows_def row_entry_append row_entry_shift)
qed

lemma wf_vstack:
  "wf_spmat A \<Longrightarrow> wf_spmat B \<Longrightarrow> n_cols A = n_cols B \<Longrightarrow>
   wf_spmat \<lparr>n_cols = n_cols A, sprows = sprows A @ sprows B\<rparr>"
  by (simp add: wf_spmat_def)

lemma wf_transpose: "wf_spmat (transpose_sp M)"
  by (auto simp: wf_spmat_def transpose_sp_def wf_row_def list_all_iff n_rows_def in_set_enumerate_eq)

lemma shape_transpose: "n_rows (transpose_sp M) = n_cols M" "n_cols (transpose_sp M) = n_rows M"
  by (simp_all add: transpose_sp_def n_rows_def)

lemma shape_binarize:
  "n_rows (binarize_rows n t M) = n_rows M" "n_cols (binarize_rows n t M) = n_cols M"
  by (simp_all add: binarize_rows_def n_rows_def)

lemma snd_enumerate_mem: "x \<in> set (enumerate n xs) \<Longrightarrow> snd x \<in> set xs"
  by (induction xs arbitrary: n) auto

lemma wf_binarize:
  assumes "wf_spmat M"
  shows "wf_spmat (binarize_rows n t M)"
proof -
  have "fst kv < n_cols M"
    if "ir \<in> set (enumerate 0 (sprows M))" "kv \<in> set (snd ir)" for ir kv
  proof -
    from that(1) have "snd ir \<in> set (sprows M)"
      by (rule snd_enumerate_mem)
    with assms that(2) show ?thesis
      by (auto simp: wf_spmat_def wf_row_def list_all_iff)
  qed
  then show ?thesis
    by (auto simp: wf_spmat_def binarize_rows_def wf_row_def list_all_iff)
qed


section \<open>Entries of sparse products\<close>

lemma row_entry_acc_add:
  "row_entry (acc_add acc j x) c = row_entry acc c + (if j = c then x else 0)"
  by (induction acc j x rule: acc_add.induct) (auto simp: row_entry_Nil row_entry_Cons)

lemma keys_acc_add: "fst ` set (acc_add acc j x) = insert j (fst ` set acc)"
  by (induction acc j x rule: acc_add.induct) auto

lemma row_entry_fold_inner:
  "row_entry (fold (\<lambda>jb acc'. acc_add acc' (fst jb) (a * snd jb)) rb acc) c
     = row_entry acc c + a * row_entry rb c"
  by (induction rb arbitrary: acc)
     (simp_all add: row_entry_Nil row_entry_Cons row_entry_acc_add algebra_simps)

lemma keys_fold_inner:
  "fst ` set (fold (\<lambda>jb acc'. acc_add acc' (fst jb) (a * snd jb)) rb acc)
     = fst ` set rb \<union> fst ` set acc"
  by (induction rb arbitrary: acc) (auto simp: keys_acc_add)

lemma row_entry_fold_outer:
  "row_entry (fold (\<lambda>ka acc. fold (\<lambda>jb acc'. acc_add acc' (fst jb) (snd ka * snd jb))
                                   (sprows B ! fst ka) acc) ra acc) c
     = row_entry acc c + sum_list (map (\<lambda>ka. snd ka * row_entry (sprows B ! fst ka) c) ra)"
  by (induction ra arbitrary: acc) (simp_all add: row_entry_fold_inner)

lemma keys_fold_outer:
  "fst ` set (fold (\<lambda>ka acc. fold (\<lambda>jb acc'. acc_add acc' (fst jb) (snd ka * snd jb))
                                   (sprows B ! fst ka) acc) ra acc)
     = (\<Union>ka \<in> set ra. fst ` set (sprows B ! fst ka)) \<union> fst ` set acc"
  by (induction ra arbitrary: acc) (auto simp: keys_fold_inner)

lemma row_entry_rev: "row_entry (rev r) c = row_entry r c"
  by (induction r) (simp_all add: row_entry_Nil row_entry_Cons row_entry_append)

lemma row_entry_drop_zeros: "row_entry (filter (\<lambda>kv. snd kv \<noteq> 0) r) c = row_entry r c"
  by (induction r) (simp_all add: row_entry_Nil row_entry_Cons)

lemma row_entry_spmm_row:
  "row_entry (spmm_row ra B) c = sum_list (map (\<lambda>ka. snd ka * row_entry (sprows B ! fst ka) c) ra)"
  by (simp add: spmm_row_def row_entry_drop_zeros row_entry_rev row_entry_fold_outer row_entry_Nil)

lemma keys_spmm_row:
  "fst ` set (spmm_row ra B) \<subseteq> (\<Union>ka \<in> set ra. fst ` set (sprows B ! fst ka))"
proof -
  have "fst ` set (spmm_row ra B)
        \<subseteq> fst ` set (fold (\<lambda>ka acc. fold (\<lambda>jb acc'. acc_add acc' (fst jb) (snd ka * snd jb))
                                   (sprows B ! fst ka) acc) ra [])"
    by (auto simp: spmm_row_def)
  then show ?thesis by (simp add: keys_fold_outer)
qed

lemma wf_spmm_row:
  assumes "wf_row (n_rows B) ra" "wf_spmat B"
  shows "wf_row (n_cols B) (spmm_row ra B)"
proof -
  have "k < n_cols B" if "k \<in> fst ` set (spmm_row ra B)" for k
  proof -
    from that keys_spmm_row obtain ka where ka: "ka \<in> set ra"
      and k: "k \<in> fst ` set (sprows B ! fst ka)" by blast
    from ka assms(1) have "fst ka < length (sprows B)"
      by (simp add: wf_row_def list_all_iff n_rows_def)
    then have "sprows B ! fst ka \<in> set (sprows B)" by (rule nth_mem)
    with assms(2) k show ?thesis
      by (auto simp: wf_spmat_def wf_row_def list_all_iff)
  qed
  then show ?thesis by (auto simp: wf_row_def list_all_iff)
qed

lemma sum_list_row_as_sum:
  assumes "wf_row n r"
  shows "sum_list (map (\<lambda>ka. snd ka * f (fst ka)) r) = (\<Sum>k<n. row_entry r k * f k)"
  using assms
proof (induction r)
  case Nil
  then show ?case by (simp add: row_entry_Nil)
next
  case (Cons kv r)
  then have k: "fst kv < n" and r: "wf_row n r" by (simp_all add: wf_row_def)
  have "row_entry (kv # r) k * f k
        = (if fst kv = k then snd kv * f k else 0) + row_entry r k * f k" for k
    by (simp add: row_entry_Cons algebra_simps)
  then have "(\<Sum>k<n. row_entry (kv # r) k * f k)
        = (\<Sum>k<n. (if fst kv = k then snd kv * f k else 0)) + (\<Sum>k<n. row_entry r k * f k)"
    by (simp only: sum.distrib)
  also have "(\<Sum>k<n. (if fst kv = k then snd kv * f k else 0)) = snd kv * f (fst kv)"
    using k sum.delta'[of "{..<n}" "fst kv" "\<lambda>k. snd kv * f k"] by simp
  finally show ?case using Cons.IH[OF r] by simp
qed

lemma sp_matmul_value:
  "n_cols A = n_rows B \<Longrightarrow>
   sp_matmul A B = Inr \<lparr>n_cols = n_cols B, sprows = map (\<lambda>r. spmm_row r B) (sprows A)\<rparr>"
  by (simp add: sp_matmul_def)

lemma entry_product:
  assumes "wf_spmat A" "n_cols A = n_rows B" "i < n_rows A"
  shows "entry \<lparr>n_cols = n, sprows = map (\<lambda>r. spmm_row r B) (sprows A)\<rparr> i j
         = (\<Sum>k<n_cols A. entry A i k * entry B k j)"
proof -
  from assms(1,3) have "wf_row (n_cols A) (sprows A ! i)"
    by (simp add: wf_spmat_def list_all_length n_rows_def)
  from sum_list_row_as_sum[OF this, of "\<lambda>k. row_entry (sprows B ! k) j"] assms(3)
  show ?thesis by (simp add: entry_def n_rows_def row_entry_spmm_row)
qed

lemma wf_product:
  assumes "wf_spmat A" "n_cols A = n_rows B" "wf_spmat B"
  shows "wf_spmat \<lparr>n_cols = n_cols B, sprows = map (\<lambda>r. spmm_row r B) (sprows A)\<rparr>"
proof -
  have "wf_row (n_cols B) (spmm_row r B)" if "r \<in> set (sprows A)" for r
  proof -
    from assms(1,2) that have "wf_row (n_rows B) r" by (simp add: wf_spmat_def list_all_iff)
    then show ?thesis using assms(3) by (rule wf_spmm_row)
  qed
  then show ?thesis by (simp add: wf_spmat_def list_all_iff)
qed

lemma sum_list_enumerate_pick:
  "sum_list (map (\<lambda>ir. if fst ir = i then g (snd ir) else (0::real)) (enumerate n xs))
     = (if n \<le> i \<and> i < n + length xs then g (xs ! (i - n)) else 0)"
proof (induction xs arbitrary: n)
  case Nil
  then show ?case by simp
next
  case (Cons x xs)
  show ?case
  proof (cases "n = i")
    case True
    then show ?thesis by (simp add: Cons.IH)
  next
    case False
    then show ?thesis by (auto simp: Cons.IH Suc_diff_le)
  qed
qed

lemma row_entry_concat: "row_entry (concat rs) c = sum_list (map (\<lambda>r. row_entry r c) rs)"
  by (induction rs) (simp_all add: row_entry_Nil row_entry_append)

lemma row_entry_retag:
  "row_entry (map (\<lambda>kv. (i', snd kv)) (filter (\<lambda>kv. fst kv = j) r)) i
     = (if i' = i then row_entry r j else 0)"
  by (induction r) (auto simp: row_entry_Nil row_entry_Cons)

lemma entry_transpose:
  assumes "j < n_cols M"
  shows "entry (transpose_sp M) j i = (if i < n_rows M then entry M i j else 0)"
proof -
  have "entry (transpose_sp M) j i
        = sum_list (map (\<lambda>ir. if fst ir = i then row_entry (snd ir) j else 0)
                        (enumerate 0 (sprows M)))"
    using assms by (simp add: entry_def transpose_sp_def row_entry_concat o_def row_entry_retag)
  then show ?thesis
    using sum_list_enumerate_pick[of i "\<lambda>r. row_entry r j" 0 "sprows M"]
    by (simp add: entry_def n_rows_def)
qed


section \<open>Propagation\<close>

lemma cat_rows_tables:
  "d_cols X = d_cols Y \<Longrightarrow>
   cat_rows [X, Y] = Inr \<lparr>d_cols = d_cols X, d_rows = d_rows X @ d_rows Y\<rparr>"
  by (simp add: cat_rows_def)

lemma length_axpy: "length x = length acc \<Longrightarrow> length (axpy v x acc) = length acc"
  by (simp add: axpy_def)

lemma axpy_nth:
  "length x = length acc \<Longrightarrow> j < length acc \<Longrightarrow> axpy v x acc ! j = acc ! j + v * x ! j"
  by (simp add: axpy_def)

lemma fold_axpy:
  assumes "wf_row (length (d_rows X)) r" "wf_dmat X" "length acc = d_cols X"
  shows "length (fold (\<lambda>kv acc. axpy (snd kv) (d_rows X ! fst kv) acc) r acc) = d_cols X"
    and "j < d_cols X \<Longrightarrow>
         fold (\<lambda>kv acc. axpy (snd kv) (d_rows X ! fst kv) acc) r acc ! j
           = acc ! j + sum_list (map (\<lambda>kv. snd kv * d_rows X ! fst kv ! j) r)"
  using assms(1,3)
proof (induction r arbitrary: acc)
  case Nil
  {
    case 1
    then show ?case by simp
  next
    case 2
    then show ?case by simp
  }
next
  case (Cons kv r)
  {
    case 1
    then have k: "fst kv < length (d_rows X)" and r: "wf_row (length (d_rows X)) r"
      by (simp_all add: wf_row_def)
    from k assms(2) have lx: "length (d_rows X ! fst kv) = d_cols X"
      by (simp add: wf_dmat_def list_all_length)
    with 1 have "length (axpy (snd kv) (d_rows X ! fst kv) acc) = d_cols X"
      by (simp add: length_axpy)
    from Cons.IH(1)[OF r this] show ?case by simp
  next
    case 2
    then have k: "fst kv < length (d_rows X)" and r: "wf_row (length (d_rows X)) r"
      by (simp_all add: wf_row_def)
    from k assms(2) have lx: "length (d_rows X ! fst kv) = d_cols X"
      by (simp add: wf_dmat_def list_all_length)
    with 2 have l: "length (axpy (snd kv) (d_rows X ! fst kv) acc) = d_cols X"
      by (simp add: length_axpy)
    from Cons.IH(2)[OF 2(1) r l] axpy_nth[of "d_rows X ! fst kv" acc j "snd kv"] lx 2
    show ?case by simp
  }
qed

lemma length_sp_row_times:
  assumes "wf_row (length (d_rows X)) r" "wf_dmat X"
  shows "length (sp_row_times r X) = d_cols X"
  unfolding sp_row_times_def by (rule fold_axpy(1)[OF assms]) simp

text \<open>A row of the sparse-dense product, entry by entry, through \<open>row_entry\<close>.\<close>

lemma sp_row_times_nth:
  assumes "wf_row (length (d_rows X)) r" "wf_dmat X" "j < d_cols X"
  shows "sp_row_times r X ! j = (\<Sum>k<length (d_rows X). row_entry r k * d_rows X ! k ! j)"
proof -
  have "sp_row_times r X ! j = sum_list (map (\<lambda>kv. snd kv * d_rows X ! fst kv ! j) r)"
    unfolding sp_row_times_def using fold_axpy(2)[OF assms(1,2) _ assms(3), of "replicate (d_cols X) 0"]
      assms(3) by simp
  also have "\<dots> = (\<Sum>k<length (d_rows X). row_entry r k * d_rows X ! k ! j)"
    by (rule sum_list_row_as_sum[OF assms(1)])
  finally show ?thesis .
qed

lemma dropout_shape:
  "d_cols (dropout m keep X) = d_cols X" "length (d_rows (dropout m keep X)) = length (d_rows X)"
  by (simp_all add: dropout_def)

lemma dropout_row:
  assumes "i < length (d_rows X)"
  shows "length (d_rows (dropout m keep X) ! i) = length (d_rows X ! i)"
    and "j < length (d_rows X ! i) \<Longrightarrow>
         d_rows (dropout m keep X) ! i ! j =
           (if training m
            then (if drop_p m < 1 \<and> keep i j then d_rows X ! i ! j / (1 - drop_p m) else 0)
            else d_rows X ! i ! j)"
  using assms by (simp_all add: dropout_def nth_enumerate_eq)

lemma add_dense_same_shape:
  assumes "d_cols X = d_cols Y" "length (d_rows X) = length (d_rows Y)"
  shows "add_dense X Y = Inr \<lparr>d_cols = d_cols X, d_rows = map2 (map2 (+)) (d_rows X) (d_rows Y)\<rparr>"
  using assms by (simp add: add_dense_def bcast_size_def bcast_def then_do_def Let_def)

lemma length_operator_rows: "length (operator_rows bs) = sum_list (map n_rows bs)"
  by (induction bs) (simp_all add: operator_rows_def n_rows_def)

lemma wf_operator_rows:
  assumes "\<And>b. b \<in> set bs \<Longrightarrow> list_all (wf_row n) (sprows b)"
  shows "list_all (wf_row n) (operator_rows bs)"
  using assms by (auto simp: operator_rows_def list_all_iff)

text \<open>
  What \<open>propagate\<close> returns for a well-formed model: the matrix \<open>all_embeds\<close> cut after
  \<open>|U|\<close> rows, each entry of which combines the raw embedding with the propagated one.
\<close>

lemma propagate_value:
  assumes "wf_model m"
  shows "\<exists>A. propagate m keep =
           Inr (A\<lparr>d_rows := take (num_users m) (d_rows A)\<rparr>,
                A\<lparr>d_rows := drop (num_users m) (d_rows A)\<rparr>) \<and>
         d_cols A = d_cols (embed_0 m) \<and>
         length (d_rows A) = num_users m + num_bundles m \<and>
         (\<forall>i < num_users m + num_bundles m.
            length (d_rows A ! i) = d_cols (embed_0 m) \<and>
            (\<forall>j < d_cols (embed_0 m).
               d_rows A ! i ! j =
                 d_rows (embed_0 m) ! i ! j / 2 +
                 (let e1 = (\<Sum>k < num_users m + num_bundles m.
                              row_entry (operator_rows (atom_graph m) ! i) k *
                              d_rows (embed_0 m) ! k ! j)
                  in if training m
                     then (if drop_p m < 1 \<and> keep i j then e1 / (1 - drop_p m) else 0)
                     else e1) / 2))"
proof -
  let ?E0 = "embed_0 m"
  let ?N = "num_users m + num_bundles m"
  let ?d = "d_cols ?E0"
  let ?Op = "operator_rows (atom_graph m)"
  let ?E1 = "\<lparr>d_cols = ?d, d_rows = map (\<lambda>r. sp_row_times r ?E0) ?Op\<rparr>"
  let ?X = "div_scalar ?E0 2"
  let ?Y = "div_scalar (dropout m keep ?E1) 2"
  let ?A = "\<lparr>d_cols = d_cols ?X, d_rows = map2 (map2 (+)) (d_rows ?X) (d_rows ?Y)\<rparr>"
  from assms have wf: "wf_dmat (users_feature m)" "wf_dmat (bundles_feature m)"
    and dc: "d_cols (users_feature m) = d_cols (bundles_feature m)"
    and dpos: "0 < d_cols (users_feature m)"
    and lu: "length (d_rows (users_feature m)) = num_users m"
    and lb: "length (d_rows (bundles_feature m)) = num_bundles m"
    and ne: "atom_graph m \<noteq> []"
    and bl: "list_all (\<lambda>G. 0 < n_rows G \<and> n_cols G = ?N \<and> wf_spmat G) (atom_graph m)"
    and tot: "sum_list (map n_rows (atom_graph m)) = ?N"
    by (simp_all add: wf_model_def)
  have e0: "cat_rows [users_feature m, bundles_feature m] = Inr ?E0"
    by (simp add: cat_rows_tables[OF dc] embed_0_def)
  have l0: "length (d_rows ?E0) = ?N" by (simp add: embed_0_def lu lb)
  have d0: "0 < ?d" using dpos by (simp add: embed_0_def)
  have wf0: "wf_dmat ?E0"
    using wf dc by (simp add: wf_dmat_def embed_0_def)
  have blk: "0 < n_rows G \<and> list_all (wf_row (length (d_rows ?E0))) (sprows G)"
    if "G \<in> set (atom_graph m)" for G
    using bl that by (auto simp: list_all_iff l0 wf_spmat_def)
  have lop: "length ?Op = ?N" by (simp add: length_operator_rows tot)
  have npos: "0 < length (d_rows ?E0)"
  proof -
    obtain G Gs where "atom_graph m = G # Gs" using ne by (cases "atom_graph m") auto
    with bl tot have "0 < ?N" by auto
    then show ?thesis by (simp add: l0)
  qed
  have e1: "block_products (atom_graph m) ?E0 = Inr ?E1"
    by (rule block_products_value[OF ne blk npos d0])
  have wfop: "list_all (wf_row (length (d_rows ?E0))) ?Op"
    by (rule wf_operator_rows) (simp add: blk)
  have oprow: "wf_row (length (d_rows ?E0)) (?Op ! i)" if "i < ?N" for i
    using wfop that lop by (simp add: list_all_length)
  have shape: "d_cols ?X = d_cols ?Y" "length (d_rows ?X) = length (d_rows ?Y)"
    using l0 lop by (simp_all add: div_scalar_def dropout_shape)
  have add: "add_dense ?X ?Y = Inr ?A" by (rule add_dense_same_shape[OF shape])
  have lA: "length (d_rows ?A) = ?N"
    using shape(2) by (simp add: div_scalar_def l0)
  have sp: "split_rows ?A (num_users m) (num_bundles m) =
      Inr (?A\<lparr>d_rows := take (num_users m) (d_rows ?A)\<rparr>, ?A\<lparr>d_rows := drop (num_users m) (d_rows ?A)\<rparr>)"
    unfolding split_rows_def using lA by simp
  have pg: "propagate m keep =
      Inr (?A\<lparr>d_rows := take (num_users m) (d_rows ?A)\<rparr>, ?A\<lparr>d_rows := drop (num_users m) (d_rows ?A)\<rparr>)"
    by (simp only: propagate_def e0 then_do_Inr e1 add sp)
  have dA: "d_cols ?A = ?d" by (simp add: div_scalar_def)
  have rows: "length (d_rows ?A ! i) = ?d \<and>
            (\<forall>j < ?d.
               d_rows ?A ! i ! j =
                 d_rows ?E0 ! i ! j / 2 +
                 (let e1 = (\<Sum>k < ?N. row_entry (?Op ! i) k * d_rows ?E0 ! k ! j)
                  in if training m
                     then (if drop_p m < 1 \<and> keep i j then e1 / (1 - drop_p m) else 0)
                     else e1) / 2)"
    if i: "i < ?N" for i
  proof -
    have i0: "i < length (d_rows ?E0)" using i l0 by simp
    have i1: "i < length (d_rows ?E1)" using i lop by simp
    have r0: "length (d_rows ?E0 ! i) = ?d"
      using wf0 i0 by (simp add: wf_dmat_def list_all_length)
    have r1: "length (d_rows ?E1 ! i) = ?d"
      using i lop length_sp_row_times[OF oprow[OF i] wf0] by simp
    have rd: "length (d_rows (dropout m keep ?E1) ! i) = ?d"
      using dropout_row(1)[OF i1, of m keep] r1 by simp
    have row: "d_rows ?A ! i =
        map2 (+) (map (\<lambda>x. x / 2) (d_rows ?E0 ! i))
                 (map (\<lambda>x. x / 2) (d_rows (dropout m keep ?E1) ! i))"
      using i0 i1 by (simp add: div_scalar_def dropout_shape)
    have len: "length (d_rows ?A ! i) = ?d" unfolding row using r0 rd by simp
    have ent: "d_rows ?A ! i ! j =
                 d_rows ?E0 ! i ! j / 2 +
                 (let e1 = (\<Sum>k < ?N. row_entry (?Op ! i) k * d_rows ?E0 ! k ! j)
                  in if training m
                     then (if drop_p m < 1 \<and> keep i j then e1 / (1 - drop_p m) else 0)
                     else e1) / 2" if j: "j < ?d" for j
    proof -
      have "d_rows ?E1 ! i ! j = (\<Sum>k < ?N. row_entry (?Op ! i) k * d_rows ?E0 ! k ! j)"
        using i lop sp_row_times_nth[OF oprow[OF i] wf0 j] by (simp add: l0)
      moreover have "d_rows (dropout m keep ?E1) ! i ! j =
           (if training m
            then (if drop_p m < 1 \<and> keep i j then d_rows ?E1 ! i ! j / (1 - drop_p m) else 0)
            else d_rows ?E1 ! i ! j)"
        using dropout_row(2)[OF i1, of j m keep] j r1 by simp
      moreover have "d_rows ?A ! i ! j =
          d_rows ?E0 ! i ! j / 2 + d_rows (dropout m keep ?E1) ! i ! j / 2"
        unfolding row using j r0 rd by simp
      ultimately show ?thesis by (simp add: Let_def)
    qed
    from len ent show ?thesis by blast
  qed
  from pg dA lA rows show ?thesis by blast
qed

lemma zero_operator_entries:
  assumes "zero_operator n bs" "i < length (operator_rows bs)" "k < n"
  shows "row_entry (operator_rows bs ! i) k = 0"
  using assms by (simp add: zero_operator_def list_all_length)

text \<open>
  C6.  For a model whose tables and blocks fit together, \<open>propagate\<close> returns UserFeature
  and BundleFeature with \<open>|U|\<close> and \<open>|B|\<close> rows of the embedding width; stacked, they are
  \<open>all_embeds\<close>, whose entry \<open>(i, j)\<close> is \<open>embed_0[i, j] / 2 + dropout(embed_1)[i, j] / 2\<close>.
  Here \<open>embed_0\<close> is the user table stacked on the bundle table, \<open>embed_1[i, j]\<close> is
  \<open>\<Sum>k. Op[i, k] \<cdot> embed_0[k, j]\<close> for the operator \<open>Op\<close> that the blocks partition, and
  dropout leaves the value alone in evaluation mode and, in training mode, rescales it by
  \<open>1 / (1 - p)\<close> where the mask keeps it and zeroes it elsewhere.  When the operator is
  the zero matrix, \<open>all_embeds\<close> is \<open>embed_0 / 2\<close>, whatever the dropout does.
\<close>

theorem propagate_skip_connection:
  assumes "wf_model m"
  shows "\<exists>users_f bundles_f.
     propagate m keep = Inr (users_f, bundles_f) \<and>
     d_cols users_f = d_cols (embed_0 m) \<and> d_cols bundles_f = d_cols (embed_0 m) \<and>
     wf_dmat users_f \<and> wf_dmat bundles_f \<and>
     length (d_rows users_f) = num_users m \<and> length (d_rows bundles_f) = num_bundles m \<and>
     (\<forall>i < num_users m + num_bundles m. \<forall>j < d_cols (embed_0 m).
        (d_rows users_f @ d_rows bundles_f) ! i ! j =
          d_rows (embed_0 m) ! i ! j / 2 +
          (let e1 = (\<Sum>k < num_users m + num_bundles m.
                       row_entry (operator_rows (atom_graph m) ! i) k *
                       d_rows (embed_0 m) ! k ! j)
           in if training m
              then (if drop_p m < 1 \<and> keep i j then e1 / (1 - drop_p m) else 0)
              else e1) / 2) \<and>
     (zero_operator (num_users m + num_bundles m) (atom_graph m) \<longrightarrow>
        d_rows users_f @ d_rows bundles_f = map (map (\<lambda>x. x / 2)) (d_rows (embed_0 m)))"
proof -
  let ?N = "num_users m + num_bundles m"
  let ?E0 = "embed_0 m"
  let ?d = "d_cols ?E0"
  from propagate_value[OF assms, of keep] obtain A where
    pg: "propagate m keep =
           Inr (A\<lparr>d_rows := take (num_users m) (d_rows A)\<rparr>,
                A\<lparr>d_rows := drop (num_users m) (d_rows A)\<rparr>)"
    and dA: "d_cols A = ?d" and lA: "length (d_rows A) = ?N"
    and rows: "\<forall>i < ?N.
            length (d_rows A ! i) = ?d \<and>
            (\<forall>j < ?d.
               d_rows A ! i ! j =
                 d_rows ?E0 ! i ! j / 2 +
                 (let e1 = (\<Sum>k < ?N. row_entry (operator_rows (atom_graph m) ! i) k *
                              d_rows ?E0 ! k ! j)
                  in if training m
                     then (if drop_p m < 1 \<and> keep i j then e1 / (1 - drop_p m) else 0)
                     else e1) / 2)"
    by blast
  let ?uf = "A\<lparr>d_rows := take (num_users m) (d_rows A)\<rparr>"
  let ?bf = "A\<lparr>d_rows := drop (num_users m) (d_rows A)\<rparr>"
  have cat: "d_rows ?uf @ d_rows ?bf = d_rows A" by simp
  have lens: "length (d_rows ?uf) = num_users m" "length (d_rows ?bf) = num_bundles m"
    using lA by simp_all
  from assms have wf0: "wf_dmat ?E0" and l0: "length (d_rows ?E0) = ?N"
    and tot: "sum_list (map n_rows (atom_graph m)) = ?N"
    by (auto simp: wf_model_def wf_dmat_def embed_0_def)
  have zero: "d_rows A = map (map (\<lambda>x. x / 2)) (d_rows ?E0)"
    if z: "zero_operator ?N (atom_graph m)"
  proof (rule nth_equalityI)
    show "length (d_rows A) = length (map (map (\<lambda>x. x / 2)) (d_rows ?E0))"
      by (simp add: lA l0)
  next
    fix i assume "i < length (d_rows A)"
    then have i: "i < ?N" by (simp add: lA)
    then have r0: "length (d_rows ?E0 ! i) = ?d"
      using wf0 l0 by (simp add: wf_dmat_def list_all_length)
    have iop: "i < length (operator_rows (atom_graph m))"
      using i by (simp add: length_operator_rows tot)
    have ze: "(\<Sum>k < ?N. row_entry (operator_rows (atom_graph m) ! i) k * d_rows ?E0 ! k ! j) = 0"
      for j
      by (rule sum.neutral) (simp add: zero_operator_entries[OF z iop])
    have "d_rows A ! i = map (\<lambda>x. x / 2) (d_rows ?E0 ! i)"
    proof (rule nth_equalityI)
      show "length (d_rows A ! i) = length (map (\<lambda>x. x / 2) (d_rows ?E0 ! i))"
        using rows i r0 by simp
    next
      fix j assume "j < length (d_rows A ! i)"
      then have j: "j < ?d" using rows i by simp
      with rows i have "d_rows A ! i ! j = d_rows ?E0 ! i ! j / 2"
        by (simp add: ze Let_def)
      with j r0 show "d_rows A ! i ! j = map (\<lambda>x. x / 2) (d_rows ?E0 ! i) ! j" by simp
    qed
    with i l0 show "d_rows A ! i = map (map (\<lambda>x. x / 2)) (d_rows ?E0) ! i" by simp
  qed
  have ent: "\<forall>i < ?N. \<forall>j < ?d.
        (d_rows ?uf @ d_rows ?bf) ! i ! j =
          d_rows ?E0 ! i ! j / 2 +
          (let e1 = (\<Sum>k < ?N. row_entry (operator_rows (atom_graph m) ! i) k *
                       d_rows ?E0 ! k ! j)
           in if training m
              then (if drop_p m < 1 \<and> keep i j then e1 / (1 - drop_p m) else 0)
              else e1) / 2"
    unfolding cat using rows by blast
  have z2: "zero_operator ?N (atom_graph m) \<longrightarrow>
        d_rows ?uf @ d_rows ?bf = map (map (\<lambda>x. x / 2)) (d_rows ?E0)"
    unfolding cat using zero by blast
  have dc: "d_cols ?uf = ?d" "d_cols ?bf = ?d" using dA by simp_all
  have "list_all (\<lambda>r. length r = ?d) (d_rows A)"
    using rows lA by (simp add: list_all_length)
  then have wfs: "wf_dmat ?uf" "wf_dmat ?bf"
    using dA by (auto simp: wf_dmat_def list_all_iff dest: in_set_takeD in_set_dropD)
  from pg dc wfs lens ent z2 show ?thesis by blast
qed

lemma ex_model_op_value:
  "propagate ex_model_op keep_all
     = Inr (\<lparr>d_cols = 2, d_rows = [[8, 12]]\<rparr>, \<lparr>d_cols = 2, d_rows = [[12, 16]]\<rparr>)"
  by (simp add: propagate_def block_products_def ex_model_op_def cat_rows_def then_do_def
      sp_matmul_dense_def n_rows_def wf_row_def sp_row_times_def axpy_def dropout_def
      div_scalar_def add_dense_def bcast_size_def bcast_def split_rows_def eval_nat_numeral)

lemma ex_model_train_value:
  "propagate ex_model_train keep_diag
     = Inr (\<lparr>d_cols = 2, d_rows = [[15, 2]]\<rparr>, \<lparr>d_cols = 2, d_rows = [[3, 28]]\<rparr>)"
  by (simp add: propagate_def block_products_def ex_model_train_def ex_model_op_def cat_rows_def
      then_do_def sp_matmul_dense_def n_rows_def wf_row_def sp_row_times_def axpy_def
      dropout_def keep_diag_def div_scalar_def add_dense_def bcast_size_def bcast_def
      split_rows_def eval_nat_numeral)

theorem propagate_skip_connection_witness:
  "wf_model ex_model_op \<and>
   propagate ex_model_op keep_all
     = Inr (\<lparr>d_cols = 2, d_rows = [[8, 12]]\<rparr>, \<lparr>d_cols = 2, d_rows = [[12, 16]]\<rparr>) \<and>
   (12::real) = d_rows (embed_0 ex_model_op) ! 1 ! 0 / 2 +
      (\<Sum>k < 2. row_entry (operator_rows (atom_graph ex_model_op) ! 1) k *
                 d_rows (embed_0 ex_model_op) ! k ! 0) / 2 \<and>
   (\<Sum>k < 2. row_entry (operator_rows (atom_graph ex_model_op) ! 1) k *
              d_rows (embed_0 ex_model_op) ! k ! 0) = 18 \<and>
   wf_model ex_model_train \<and>
   propagate ex_model_train keep_diag
     = Inr (\<lparr>d_cols = 2, d_rows = [[15, 2]]\<rparr>, \<lparr>d_cols = 2, d_rows = [[3, 28]]\<rparr>) \<and>
   (28::real) = d_rows (embed_0 ex_model_train) ! 1 ! 1 / 2 +
      (\<Sum>k < 2. row_entry (operator_rows (atom_graph ex_model_train) ! 1) k *
                 d_rows (embed_0 ex_model_train) ! k ! 1) / (1 - drop_p ex_model_train) / 2 \<and>
   wf_model ex_model \<and> zero_operator 2 (atom_graph ex_model) \<and>
   propagate ex_model keep_all
     = Inr (\<lparr>d_cols = 2, d_rows = [[1, 2]]\<rparr>, \<lparr>d_cols = 2, d_rows = [[3, 4]]\<rparr>)"
proof -
  have two: "{..<2::nat} = {0, 1}" by auto
  have h1: "wf_model ex_model_op"
    by (simp add: wf_model_def ex_model_op_def wf_dmat_def wf_spmat_def wf_row_def n_rows_def)
  have h2: "wf_model ex_model_train"
    by (simp add: wf_model_def ex_model_train_def ex_model_op_def wf_dmat_def wf_spmat_def
        wf_row_def n_rows_def)
  have h3: "wf_model ex_model"
    by (simp add: wf_model_def ex_model_def wf_dmat_def wf_spmat_def wf_row_def n_rows_def)
  have z: "zero_operator 2 (atom_graph ex_model)"
    by (simp add: zero_operator_def operator_rows_def ex_model_def row_entry_def upt_rec)
  have n1: "num_users ex_model_op + num_bundles ex_model_op = 2" "d_cols (embed_0 ex_model_op) = 2"
    "training ex_model_op = False"
    by (simp_all add: ex_model_op_def embed_0_def)
  have n2: "num_users ex_model_train + num_bundles ex_model_train = 2"
    "d_cols (embed_0 ex_model_train) = 2" "training ex_model_train = True"
    "drop_p ex_model_train < 1"
    by (simp_all add: ex_model_train_def ex_model_op_def embed_0_def)
  have n3: "num_users ex_model + num_bundles ex_model = 2"
    by (simp add: ex_model_def)
  \<comment> \<open>evaluation mode\<close>
  from propagate_skip_connection[OF h1, of keep_all] obtain uf bf where
    p1: "propagate ex_model_op keep_all = Inr (uf, bf)"
    and e1: "\<forall>i < num_users ex_model_op + num_bundles ex_model_op.
       \<forall>j < d_cols (embed_0 ex_model_op).
        (d_rows uf @ d_rows bf) ! i ! j =
          d_rows (embed_0 ex_model_op) ! i ! j / 2 +
          (let e1 = (\<Sum>k < num_users ex_model_op + num_bundles ex_model_op.
                       row_entry (operator_rows (atom_graph ex_model_op) ! i) k *
                       d_rows (embed_0 ex_model_op) ! k ! j)
           in if training ex_model_op
              then (if drop_p ex_model_op < 1 \<and> keep_all i j
                    then e1 / (1 - drop_p ex_model_op) else 0)
              else e1) / 2"
    by blast
  from p1 have v1: "uf = \<lparr>d_cols = 2, d_rows = [[8, 12]]\<rparr>" "bf = \<lparr>d_cols = 2, d_rows = [[12, 16]]\<rparr>"
    by (simp_all add: ex_model_op_value)
  from e1[rule_format, of 1 0] have a1: "(12::real) = d_rows (embed_0 ex_model_op) ! 1 ! 0 / 2 +
      (\<Sum>k < 2. row_entry (operator_rows (atom_graph ex_model_op) ! 1) k *
                 d_rows (embed_0 ex_model_op) ! k ! 0) / 2"
    unfolding n1 v1 by (simp add: Let_def)
  have s1: "(\<Sum>k < 2. row_entry (operator_rows (atom_graph ex_model_op) ! 1) k *
              d_rows (embed_0 ex_model_op) ! k ! 0) = 18"
    by (simp add: two operator_rows_def ex_model_op_def embed_0_def row_entry_def)
  \<comment> \<open>training mode\<close>
  from propagate_skip_connection[OF h2, of keep_diag] obtain uf2 bf2 where
    p2: "propagate ex_model_train keep_diag = Inr (uf2, bf2)"
    and e2: "\<forall>i < num_users ex_model_train + num_bundles ex_model_train.
       \<forall>j < d_cols (embed_0 ex_model_train).
        (d_rows uf2 @ d_rows bf2) ! i ! j =
          d_rows (embed_0 ex_model_train) ! i ! j / 2 +
          (let e1 = (\<Sum>k < num_users ex_model_train + num_bundles ex_model_train.
                       row_entry (operator_rows (atom_graph ex_model_train) ! i) k *
                       d_rows (embed_0 ex_model_train) ! k ! j)
           in if training ex_model_train
              then (if drop_p ex_model_train < 1 \<and> keep_diag i j
                    then e1 / (1 - drop_p ex_model_train) else 0)
              else e1) / 2"
    by blast
  from p2 have v2: "uf2 = \<lparr>d_cols = 2, d_rows = [[15, 2]]\<rparr>" "bf2 = \<lparr>d_cols = 2, d_rows = [[3, 28]]\<rparr>"
    by (simp_all add: ex_model_train_value)
  from e2[rule_format, of 1 1] have a2: "(28::real) = d_rows (embed_0 ex_model_train) ! 1 ! 1 / 2 +
      (\<Sum>k < 2. row_entry (operator_rows (atom_graph ex_model_train) ! 1) k *
                 d_rows (embed_0 ex_model_train) ! k ! 1) / (1 - drop_p ex_model_train) / 2"
    unfolding n2 v2 using n2(4) by (simp only: Let_def keep_diag_def if_True simp_thms) simp
  \<comment> \<open>zero operator\<close>
  from propagate_skip_connection[OF h3, of keep_all] z obtain uf3 bf3 where
    p3: "propagate ex_model keep_all = Inr (uf3, bf3)"
    and d3: "d_cols uf3 = d_cols (embed_0 ex_model)" "d_cols bf3 = d_cols (embed_0 ex_model)"
    and l3: "length (d_rows uf3) = num_users ex_model"
    and z3: "d_rows uf3 @ d_rows bf3 = map (map (\<lambda>x. x / 2)) (d_rows (embed_0 ex_model))"
    unfolding n3 by blast
  from z3 l3 have "d_rows uf3 = [[1, 2]]" "d_rows bf3 = [[3, 4]]"
    by (auto simp: embed_0_def ex_model_def append_eq_Cons_conv)
  with d3 have "uf3 = \<lparr>d_cols = 2, d_rows = [[1, 2]]\<rparr>" "bf3 = \<lparr>d_cols = 2, d_rows = [[3, 4]]\<rparr>"
    by (cases uf3, simp add: embed_0_def ex_model_def, cases bf3, simp add: embed_0_def ex_model_def)
  with p3 have v3: "propagate ex_model keep_all
     = Inr (\<lparr>d_cols = 2, d_rows = [[1, 2]]\<rparr>, \<lparr>d_cols = 2, d_rows = [[3, 4]]\<rparr>)"
    by simp
  from h1 h2 h3 z a1 s1 a2 v3 ex_model_op_value ex_model_train_value show ?thesis by simp
qed

section \<open>The training step\<close>

lemma then_do_InrE:
  assumes "then_do m f = Inr y"
  obtains x where "m = Inr x" "f x = Inr y"
  using assms by (cases m) (simp_all add: then_do_def)

lemma forward_loss:
  assumes "forward m keep users bundles = Inr (pred, sb, loss)"
  shows "\<exists>users_f bundles_f. propagate m keep = Inr (users_f, bundles_f) \<and>
           loss = embed_L2_norm m * (sum_squares users_f + sum_squares bundles_f)"
proof -
  from assms obtain p where p: "propagate m keep = Inr p"
    and 1: "(case p of (users_f, bundles_f) \<Rightarrow>
     then_do (then_do (gather2 users_f users) (\<lambda>T. expand_mid T (i_cols bundles)))
       (\<lambda>users_embedding.
     then_do (gather2 bundles_f bundles) (\<lambda>bundles_embedding.
     then_do (predict users_embedding bundles_embedding) (\<lambda>pred.
     let loss = regularize m users_f bundles_f
     in then_do (then_do (gather2 users_f users) (\<lambda>T. tensor3_matmul T (user_bound m)))
          (\<lambda>user_score_bound.
        Inr (pred, user_score_bound, loss)))))) = Inr (pred, sb, loss)"
    unfolding forward_def by (rule then_do_InrE)
  obtain uf bf where pq: "p = (uf, bf)" by (cases p)
  from 1[unfolded pq prod.case] obtain ue where
    2: "then_do (gather2 bf bundles) (\<lambda>bundles_embedding.
     then_do (predict ue bundles_embedding) (\<lambda>pred.
     let loss = regularize m uf bf
     in then_do (then_do (gather2 uf users) (\<lambda>T. tensor3_matmul T (user_bound m)))
          (\<lambda>user_score_bound.
        Inr (pred, user_score_bound, loss)))) = Inr (pred, sb, loss)"
    by (rule then_do_InrE)
  from 2 obtain be where
    3: "then_do (predict ue be) (\<lambda>pred.
     let loss = regularize m uf bf
     in then_do (then_do (gather2 uf users) (\<lambda>T. tensor3_matmul T (user_bound m)))
          (\<lambda>user_score_bound.
        Inr (pred, user_score_bound, loss))) = Inr (pred, sb, loss)"
    by (rule then_do_InrE)
  from 3 obtain pr where
    4: "(let loss = regularize m uf bf
     in then_do (then_do (gather2 uf users) (\<lambda>T. tensor3_matmul T (user_bound m)))
          (\<lambda>user_score_bound.
        Inr (pr, user_score_bound, loss))) = Inr (pred, sb, loss)"
    by (rule then_do_InrE)
  from 4[unfolded Let_def] obtain s where "Inr (pr, s, regularize m uf bf) = (Inr (pred, sb, loss) :: py_error + dmat \<times> tensor3 \<times> real)"
    by (rule then_do_InrE)
  then have "loss = regularize m uf bf" by simp
  with p pq show ?thesis by (simp add: regularize_def)
qed

lemma gather2_valid:
  assumes "valid_idx (length (d_rows F)) idx"
  shows "gather2 F idx =
           Inr \<lparr>t_d1 = i_cols idx, t_d2 = d_cols F,
                 t_data = map (map (\<lambda>i. d_rows F ! nat i)) (i_rows idx)\<rparr>"
proof -
  have row: "traverse (get_row F) row = Inr (map (\<lambda>i. d_rows F ! nat i) row)"
    if "row \<in> set (i_rows idx)" for row
  proof (rule traverse_all_Inr)
    fix i assume "i \<in> set row"
    with that assms have "0 \<le> i \<and> i < int (length (d_rows F))"
      by (auto simp: valid_idx_def list_all_iff)
    then show "get_row F i = Inr (d_rows F ! nat i)" by (simp add: get_row_valid)
  qed
  have "traverse (\<lambda>row. traverse (get_row F) row) (i_rows idx)
        = Inr (map (map (\<lambda>i. d_rows F ! nat i)) (i_rows idx))"
    by (rule traverse_all_Inr) (rule row)
  then show ?thesis by (simp add: gather2_def then_do_Inr)
qed

lemma expand_mid_ok:
  assumes "t_d1 T = 1 \<or> t_d1 T = k"
  shows "\<exists>T'. expand_mid T k = Inr T' \<and> t_d1 T' = k \<and> t_d2 T' = t_d2 T \<and>
               length (t_data T') = length (t_data T)"
  using assms by (auto simp: expand_mid_def)

lemma predict_ok:
  assumes "t_d1 A = t_d1 B" "t_d2 A = t_d2 B" "length (t_data A) = length (t_data B)"
  shows "\<exists>P. predict A B = Inr P"
  using assms by (simp add: predict_def bdim_def)

lemma forward_returns:
  assumes wf: "wf_model m"
    and ub: "length (d_rows (user_bound m)) = d_cols (users_feature m)"
    and vu: "valid_idx (num_users m) users" and vb: "valid_idx (num_bundles m) bundles"
    and ex: "i_cols users = 1 \<or> i_cols users = i_cols bundles"
    and len: "length (i_rows users) = length (i_rows bundles)"
  shows "\<exists>pred sb loss. forward m keep users bundles = Inr (pred, sb, loss)"
proof -
  from propagate_value[OF wf, of keep] obtain A where
    dA: "d_cols A = d_cols (embed_0 m)" and lA: "length (d_rows A) = num_users m + num_bundles m"
    and pg: "propagate m keep =
       Inr (A\<lparr>d_rows := take (num_users m) (d_rows A)\<rparr>,
            A\<lparr>d_rows := drop (num_users m) (d_rows A)\<rparr>)"
    by blast
  let ?uf = "A\<lparr>d_rows := take (num_users m) (d_rows A)\<rparr>"
  let ?bf = "A\<lparr>d_rows := drop (num_users m) (d_rows A)\<rparr>"
  have lu: "length (d_rows ?uf) = num_users m" and lb: "length (d_rows ?bf) = num_bundles m"
    using lA by simp_all
  let ?Tu = "\<lparr>t_d1 = i_cols users, t_d2 = d_cols ?uf,
              t_data = map (map (\<lambda>i. d_rows ?uf ! nat i)) (i_rows users)\<rparr>"
  let ?Tb = "\<lparr>t_d1 = i_cols bundles, t_d2 = d_cols ?bf,
              t_data = map (map (\<lambda>i. d_rows ?bf ! nat i)) (i_rows bundles)\<rparr>"
  have gu: "gather2 ?uf users = Inr ?Tu"
    by (rule gather2_valid) (simp only: lu vu)
  have gb: "gather2 ?bf bundles = Inr ?Tb"
    by (rule gather2_valid) (simp only: lb vb)
  from ex have "t_d1 ?Tu = 1 \<or> t_d1 ?Tu = i_cols bundles" by simp
  from expand_mid_ok[OF this] obtain Te where
    te: "expand_mid ?Tu (i_cols bundles) = Inr Te" and te1: "t_d1 Te = i_cols bundles"
    and te2: "t_d2 Te = t_d2 ?Tu" and tel: "length (t_data Te) = length (t_data ?Tu)"
    by blast
  have "\<exists>P. predict Te ?Tb = Inr P"
    by (rule predict_ok) (simp_all add: te1 te2 tel len)
  then obtain P where pr: "predict Te ?Tb = Inr P" ..
  have "t_d2 ?Tu = length (d_rows (user_bound m))"
    by (simp add: ub dA embed_0_def)
  then have mm: "tensor3_matmul ?Tu (user_bound m) =
      Inr \<lparr>t_d1 = t_d1 ?Tu, t_d2 = d_cols (user_bound m),
            t_data = map (map (\<lambda>r. vec_mat r (user_bound m))) (t_data ?Tu)\<rparr>"
    unfolding tensor3_matmul_def by (rule if_P)
  have "forward m keep users bundles =
      Inr (P, \<lparr>t_d1 = t_d1 ?Tu, t_d2 = d_cols (user_bound m),
            t_data = map (map (\<lambda>r. vec_mat r (user_bound m))) (t_data ?Tu)\<rparr>,
           regularize m ?uf ?bf)"
    by (simp only: forward_def pg then_do_Inr prod.case gu te gb pr Let_def mm)
  then show ?thesis by blast
qed

text \<open>
  C1.  Whenever \<open>forward\<close> returns, its regularisation loss is
  \<open>\<lambda>\<close> times the sum of squares of all entries of the propagated UserFeature table plus
  that of the propagated BundleFeature table: the full tables, whatever the batch; and it
  does return for a well-formed model (one whose blocks all hold a row, so that no block
  product dies in the kernel) and a batch of in-range indices.
\<close>

theorem forward_regularization:
  "(\<forall>pred sb loss. forward m keep users bundles = Inr (pred, sb, loss) \<longrightarrow>
      (\<exists>users_f bundles_f. propagate m keep = Inr (users_f, bundles_f) \<and>
         loss = embed_L2_norm m * (sum_squares users_f + sum_squares bundles_f))) \<and>
   (wf_model m \<and> length (d_rows (user_bound m)) = d_cols (users_feature m) \<and>
    valid_idx (num_users m) users \<and> valid_idx (num_bundles m) bundles \<and>
    (i_cols users = 1 \<or> i_cols users = i_cols bundles) \<and>
    length (i_rows users) = length (i_rows bundles) \<longrightarrow>
      (\<exists>pred sb loss. forward m keep users bundles = Inr (pred, sb, loss)))"
  using forward_loss forward_returns by blast

lemma ex_propagate_value:
  "propagate ex_model2 keep_all
     = Inr (\<lparr>d_cols = 1, d_rows = [[1], [2]]\<rparr>, \<lparr>d_cols = 1, d_rows = [[3]]\<rparr>)"
  by (simp add: propagate_def block_products_def ex_model2_def cat_rows_def then_do_def
      sp_matmul_dense_def n_rows_def wf_row_def sp_row_times_def dropout_def div_scalar_def
      add_dense_def bcast_size_def bcast_def split_rows_def)

lemma ex_forward_value:
  "forward ex_model2 keep_all ex_batch_users ex_batch_bundles
     = Inr (\<lparr>d_cols = 1, d_rows = [[3]]\<rparr>, \<lparr>t_d1 = 1, t_d2 = 1, t_data = [[[1]]]\<rparr>, 14)"
  unfolding forward_def ex_propagate_value
  by (simp add: then_do_def gather2_def get_row_def expand_mid_def predict_def bdim_def
      stretch_def regularize_def sum_squares_def tensor3_matmul_def vec_mat_def
      ex_batch_users_def ex_batch_bundles_def ex_model2_def)

theorem forward_regularization_witness:
  "wf_model ex_model2 \<and>
   length (d_rows (user_bound ex_model2)) = d_cols (users_feature ex_model2) \<and>
   valid_idx (num_users ex_model2) ex_batch_users \<and>
   valid_idx (num_bundles ex_model2) ex_batch_bundles \<and>
   i_cols ex_batch_users = 1 \<and>
   length (i_rows ex_batch_users) = length (i_rows ex_batch_bundles) \<and>
   forward ex_model2 keep_all ex_batch_users ex_batch_bundles
     = Inr (\<lparr>d_cols = 1, d_rows = [[3]]\<rparr>, \<lparr>t_d1 = 1, t_d2 = 1, t_data = [[[1]]]\<rparr>, 14) \<and>
   propagate ex_model2 keep_all
     = Inr (\<lparr>d_cols = 1, d_rows = [[1], [2]]\<rparr>, \<lparr>d_cols = 1, d_rows = [[3]]\<rparr>) \<and>
   (14::real) = embed_L2_norm ex_model2 *
      (sum_squares \<lparr>d_cols = 1, d_rows = [[1], [2]]\<rparr> + sum_squares \<lparr>d_cols = 1, d_rows = [[3]]\<rparr>)"
proof -
  have h: "wf_model ex_model2"
    "length (d_rows (user_bound ex_model2)) = d_cols (users_feature ex_model2)"
    "valid_idx (num_users ex_model2) ex_batch_users"
    "valid_idx (num_bundles ex_model2) ex_batch_bundles"
    "i_cols ex_batch_users = 1"
    "length (i_rows ex_batch_users) = length (i_rows ex_batch_bundles)"
    by (simp_all add: wf_model_def ex_model2_def wf_dmat_def wf_spmat_def wf_row_def n_rows_def
        valid_idx_def ex_batch_users_def ex_batch_bundles_def)
  from forward_regularization[of ex_model2 keep_all ex_batch_users ex_batch_bundles] h
  obtain pred sb loss where
    f: "forward ex_model2 keep_all ex_batch_users ex_batch_bundles = Inr (pred, sb, loss)"
    by blast
  with forward_regularization[of ex_model2 keep_all ex_batch_users ex_batch_bundles]
  obtain uf bf where p: "propagate ex_model2 keep_all = Inr (uf, bf)"
    and l: "loss = embed_L2_norm ex_model2 * (sum_squares uf + sum_squares bf)"
    by blast
  from f have "loss = 14" by (simp add: ex_forward_value)
  moreover from p have "uf = \<lparr>d_cols = 1, d_rows = [[1], [2]]\<rparr>" "bf = \<lparr>d_cols = 1, d_rows = [[3]]\<rparr>"
    by (simp_all add: ex_propagate_value)
  ultimately have "(14::real) = embed_L2_norm ex_model2 *
      (sum_squares \<lparr>d_cols = 1, d_rows = [[1], [2]]\<rparr> + sum_squares \<lparr>d_cols = 1, d_rows = [[3]]\<rparr>)"
    using l by simp
  with h ex_forward_value ex_propagate_value show ?thesis by simp
qed

text \<open>
  The claim as stated fails: for two users and the batch \<open>[[0]]\<close>, the loss returned is
  \<open>14\<close> (both user rows and the bundle row), while \<open>\<lambda>\<close> times the sum of squares of
  the gathered rows is \<open>10\<close>.
\<close>

theorem forward_regularization_counterexample:
  "forward ex_model2 keep_all ex_batch_users ex_batch_bundles
     = Inr (\<lparr>d_cols = 1, d_rows = [[3]]\<rparr>, \<lparr>t_d1 = 1, t_d2 = 1, t_data = [[[1]]]\<rparr>, 14) \<and>
   gathered_regularization ex_model2 keep_all ex_batch_users ex_batch_bundles = Inr 10 \<and>
   (14::real) \<noteq> 10"
proof -
  have "gathered_regularization ex_model2 keep_all ex_batch_users ex_batch_bundles = Inr 10"
    unfolding gathered_regularization_def ex_propagate_value
    by (simp add: then_do_def gather2_def get_row_def sum_squares3_def
        ex_batch_users_def ex_batch_bundles_def ex_model2_def)
  with ex_forward_value show ?thesis by simp
qed


section \<open>The incidence structure\<close>

lemma shape_stack_v: "n_rows (stack_v A B) = n_rows A + n_rows B" "n_cols (stack_v A B) = n_cols A"
  by (simp_all add: stack_v_def n_rows_def)

lemma shape_stack_h:
  "n_rows A = n_rows B \<Longrightarrow> n_rows (stack_h A B) = n_rows A" "n_cols (stack_h A B) = n_cols A + n_cols B"
  by (simp_all add: stack_h_def n_rows_def)

lemma shape_product: "n_rows (product A B) = n_rows A" "n_cols (product A B) = n_cols B"
  by (simp_all add: product_def n_rows_def)

lemma shape_user_similarity:
  "n_rows (user_similarity ub t) = n_rows ub" "n_cols (user_similarity ub t) = n_rows ub"
  by (simp_all add: user_similarity_def shape_binarize shape_product shape_transpose)

lemma shape_bundle_similarity:
  "n_rows (bundle_similarity ub t) = n_cols ub" "n_cols (bundle_similarity ub t) = n_cols ub"
  by (simp_all add: bundle_similarity_def shape_binarize shape_product shape_transpose)

lemma sp_vstack_stack: "n_cols A = n_cols B \<Longrightarrow> sp_vstack A B = Inr (stack_v A B)"
  by (simp add: sp_vstack_def stack_v_def)

lemma sp_hstack_stack: "n_rows A = n_rows B \<Longrightarrow> sp_hstack A B = Inr (stack_h A B)"
  by (auto simp: sp_hstack_def stack_h_def n_rows_def)

lemma sp_hstack_cases:
  "sp_hstack A B =
     (if n_rows A = n_rows B then Inr (stack_h A B)
      else if n_rows A = 0 then Inr (shift_h A B)
      else Inl ValueError)"
  by (auto simp: sp_hstack_def stack_h_def shift_h_def n_rows_def)

lemma sp_matmul_product: "n_cols A = n_rows B \<Longrightarrow> sp_matmul A B = Inr (product A B)"
  by (simp add: sp_matmul_def product_def)

lemma uu_graph_value: "uu_graph ub t = Inr (user_similarity ub t)"
  by (simp add: uu_graph_def user_similarity_def sp_matmul_product shape_transpose then_do_Inr)

lemma bb_graph_value: "bb_graph ub t = Inr (bundle_similarity ub t)"
  by (simp add: bb_graph_def bundle_similarity_def sp_matmul_product shape_transpose then_do_Inr)

lemma mix_Hypergraph_value:
  "mix_Hypergraph (ui, bi, ub) t =
     (if n_cols ui \<noteq> n_cols bi then Inl ValueError
      else if n_rows ui + n_rows bi = n_rows ub + n_cols ub
        then Inr (incidence (ui, bi, ub) t)
      else if n_rows ui + n_rows bi = 0 then Inr (incidence_rowless (ui, bi, ub) t)
      else Inl ValueError)"
proof -
  let ?uu = "user_similarity ub t" and ?bb = "bundle_similarity ub t"
  let ?left = "stack_v ?uu (transpose_sp ub)" and ?right = "stack_v ub ?bb"
  have l: "sp_vstack ?uu (transpose_sp ub) = Inr ?left"
    by (rule sp_vstack_stack) (simp add: shape_user_similarity shape_transpose)
  have r: "sp_vstack ub ?bb = Inr ?right"
    by (rule sp_vstack_stack) (simp add: shape_bundle_similarity)
  have h: "sp_hstack ?left ?right = Inr (stack_h ?left ?right)"
    by (rule sp_hstack_stack)
       (simp add: shape_stack_v shape_user_similarity shape_bundle_similarity shape_transpose)
  have rows: "n_rows (stack_h ?left ?right) = n_rows ub + n_cols ub"
    by (simp add: shape_stack_h shape_stack_v shape_user_similarity shape_bundle_similarity
        shape_transpose)
  have mix: "mix_Hypergraph (ui, bi, ub) t =
      then_do (sp_vstack ui bi) (\<lambda>H_i. sp_hstack H_i (stack_h ?left ?right))"
    by (simp only: mix_Hypergraph_def prod.case uu_graph_value bb_graph_value then_do_Inr l r h)
  show ?thesis
  proof (cases "n_cols ui = n_cols bi")
    case False
    then show ?thesis by (simp add: mix sp_vstack_def then_do_Inl)
  next
    case True
    then have v: "sp_vstack ui bi = Inr (stack_v ui bi)" by (rule sp_vstack_stack)
    have hh: "sp_hstack (stack_v ui bi) (stack_h ?left ?right) =
        (if n_rows ui + n_rows bi = n_rows ub + n_cols ub
           then Inr (stack_h (stack_v ui bi) (stack_h ?left ?right))
         else if n_rows ui + n_rows bi = 0
           then Inr (shift_h (stack_v ui bi) (stack_h ?left ?right))
         else Inl ValueError)"
      by (simp add: sp_hstack_cases rows shape_stack_v)
    show ?thesis
      using True by (simp add: mix v then_do_Inr hh incidence_def incidence_rowless_def)
  qed
qed

lemma entry_stack_v:
  "entry (stack_v A B) r c = (if r < n_rows A then entry A r c else entry B (r - n_rows A) c)"
  unfolding stack_v_def by (rule entry_vstack)

lemma entry_stack_h:
  assumes "n_rows A = n_rows B" "r < n_rows A" "wf_spmat A"
  shows "entry (stack_h A B) r c = (if c < n_cols A then entry A r c else entry B r (c - n_cols A))"
  unfolding stack_h_def by (rule entry_hstack[OF assms])

lemma wf_stack_v: "wf_spmat A \<Longrightarrow> wf_spmat B \<Longrightarrow> n_cols A = n_cols B \<Longrightarrow> wf_spmat (stack_v A B)"
  unfolding stack_v_def by (rule wf_vstack)

lemma wf_stack_h:
  assumes "wf_spmat A" "wf_spmat B"
  shows "wf_spmat (stack_h A B)"
proof -
  have "wf_row (n_cols A + n_cols B) (fst p @ map (\<lambda>kv. (fst kv + n_cols A, snd kv)) (snd p))"
    if "p \<in> set (zip (sprows A) (sprows B))" for p
  proof -
    obtain a b where p: "p = (a, b)" by (cases p)
    from that have "fst p \<in> set (sprows A)" "snd p \<in> set (sprows B)"
      unfolding p by (auto dest: set_zip_leftD set_zip_rightD)
    with assms have "wf_row (n_cols A) (fst p)" "wf_row (n_cols B) (snd p)"
      by (simp_all add: wf_spmat_def list_all_iff)
    then show ?thesis
      by (simp add: wf_row_append wf_row_shift wf_row_mono)
  qed
  then show ?thesis
    by (auto simp: wf_spmat_def stack_h_def list_all_iff)
qed

lemma wf_product_sp:
  "wf_spmat A \<Longrightarrow> n_cols A = n_rows B \<Longrightarrow> wf_spmat B \<Longrightarrow> wf_spmat (product A B)"
  unfolding product_def by (rule wf_product)

lemma wf_user_similarity: "wf_spmat ub \<Longrightarrow> wf_spmat (user_similarity ub t)"
  unfolding user_similarity_def
  by (intro wf_binarize wf_product_sp wf_transpose) (simp_all add: shape_transpose)

lemma wf_bundle_similarity: "wf_spmat ub \<Longrightarrow> wf_spmat (bundle_similarity ub t)"
  unfolding bundle_similarity_def
  by (intro wf_binarize wf_product_sp wf_transpose) (simp_all add: shape_transpose)

lemma shape_incidence:
  assumes "n_rows ui + n_rows bi = n_rows ub + n_cols ub"
  shows "n_rows (incidence (ui, bi, ub) t) = n_rows ub + n_cols ub"
    and "n_cols (incidence (ui, bi, ub) t) = n_cols ui + n_rows ub + n_cols ub"
  using assms
  by (simp_all add: incidence_def shape_stack_h shape_stack_v shape_user_similarity
      shape_bundle_similarity shape_transpose)

lemma wf_incidence:
  assumes "wf_spmat ui" "wf_spmat bi" "wf_spmat ub" "n_cols ui = n_cols bi"
  shows "wf_spmat (incidence (ui, bi, ub) t)"
  unfolding incidence_def prod.case
  by (intro wf_stack_h wf_stack_v assms wf_user_similarity wf_bundle_similarity wf_transpose)
     (simp_all add: shape_user_similarity shape_bundle_similarity shape_transpose)

lemma entry_incidence:
  assumes wf: "wf_spmat ui" "wf_spmat bi" "wf_spmat ub"
    and dims: "n_rows ui = n_rows ub" "n_rows bi = n_cols ub" "n_cols ui = n_cols bi"
    and r: "r < n_rows ub + n_cols ub" and c: "c < n_cols ui + n_rows ub + n_cols ub"
  shows "entry (incidence (ui, bi, ub) t) r c =
     (if c < n_cols ui
        then (if r < n_rows ub then entry ui r c else entry bi (r - n_rows ub) c)
      else if c < n_cols ui + n_rows ub
        then (if r < n_rows ub then entry (user_similarity ub t) r (c - n_cols ui)
              else entry ub (c - n_cols ui) (r - n_rows ub))
      else (if r < n_rows ub then entry ub r (c - n_cols ui - n_rows ub)
            else entry (bundle_similarity ub t) (r - n_rows ub) (c - n_cols ui - n_rows ub)))"
proof -
  let ?uu = "user_similarity ub t" and ?bb = "bundle_similarity ub t"
  let ?H_i = "stack_v ui bi"
  let ?left = "stack_v ?uu (transpose_sp ub)" and ?right = "stack_v ub ?bb"
  let ?H_ub = "stack_h ?left ?right"
  have rl: "n_rows ?left = n_rows ub + n_cols ub" "n_rows ?right = n_rows ub + n_cols ub"
    by (simp_all add: shape_stack_v shape_user_similarity shape_bundle_similarity shape_transpose)
  have rub: "n_rows ?H_ub = n_rows ub + n_cols ub" by (simp add: shape_stack_h rl)
  have ri: "n_rows ?H_i = n_rows ub + n_cols ub" by (simp add: shape_stack_v dims)
  have wfi: "wf_spmat ?H_i" by (intro wf_stack_v wf dims)
  have wfl: "wf_spmat ?left"
    by (intro wf_stack_v wf_user_similarity wf wf_transpose)
       (simp add: shape_user_similarity shape_transpose)
  have e1: "entry (incidence (ui, bi, ub) t) r c =
      (if c < n_cols ui then entry ?H_i r c else entry ?H_ub r (c - n_cols ui))"
    unfolding incidence_def prod.case
    using entry_stack_h[of ?H_i ?H_ub r c] ri rub r wfi by (simp add: shape_stack_v)
  have e2: "entry ?H_i r c = (if r < n_rows ub then entry ui r c else entry bi (r - n_rows ub) c)"
    by (simp add: entry_stack_v dims)
  have e3: "entry ?H_ub r c' =
      (if c' < n_rows ub then entry ?left r c' else entry ?right r (c' - n_rows ub))" for c'
    using entry_stack_h[of ?left ?right r c'] rl r wfl
    by (simp add: shape_stack_v shape_user_similarity)
  have e4: "entry ?left r c' =
      (if r < n_rows ub then entry ?uu r c' else entry ub c' (r - n_rows ub))"
    if "c' < n_rows ub" for c'
  proof -
    have "r - n_rows ub < n_cols ub" if "\<not> r < n_rows ub" using r that by simp
    then show ?thesis
      using \<open>c' < n_rows ub\<close>
      by (simp add: entry_stack_v shape_user_similarity entry_transpose)
  qed
  have e5: "entry ?right r c' =
      (if r < n_rows ub then entry ub r c' else entry ?bb (r - n_rows ub) c')" for c'
    by (simp add: entry_stack_v)
  show ?thesis
  proof (cases "c < n_cols ui")
    case True
    then show ?thesis by (simp add: e1 e2)
  next
    case False
    show ?thesis
    proof (cases "c < n_cols ui + n_rows ub")
      case True
      with False have "c - n_cols ui < n_rows ub" by simp
      with False True show ?thesis by (simp add: e1 e3 e4)
    next
      case F2: False
      then have "\<not> c - n_cols ui < n_rows ub" by simp
      with False F2 show ?thesis by (simp add: e1 e3 e5)
    qed
  qed
qed


section \<open>The block layout\<close>

lemma ex_transpose: "transpose_sp ex_ub = \<lparr>n_cols = 2, sprows = [[(0, 2)], [(1, 20)]]\<rparr>"
  by (simp add: transpose_sp_def ex_ub_def n_rows_def upt_rec)

lemma ex_user_similarity:
  "user_similarity ex_ub 10 = \<lparr>n_cols = 2, sprows = [[(0, 0)], [(1, 1)]]\<rparr>"
  unfolding user_similarity_def product_def ex_transpose
  by (simp add: ex_ub_def spmm_row_def binarize_rows_def n_rows_def)

lemma ex_bundle_similarity:
  "bundle_similarity ex_ub 10 = \<lparr>n_cols = 2, sprows = [[(0, 0)], [(1, 1)]]\<rparr>"
  unfolding bundle_similarity_def product_def ex_transpose
  by (simp add: ex_ub_def spmm_row_def binarize_rows_def n_rows_def)

lemma ex_incidence: "incidence (ex_ui, ex_bi, ex_ub) 10 = ex_H"
  unfolding incidence_def prod.case ex_user_similarity ex_bundle_similarity ex_transpose
  by (simp add: stack_h_def stack_v_def ex_ui_def ex_bi_def ex_ub_def ex_H_def)

lemma ex_mix: "mix_Hypergraph (ex_ui, ex_bi, ex_ub) 10 = Inr ex_H"
  by (simp add: mix_Hypergraph_value ex_incidence)
     (simp add: ex_ui_def ex_bi_def ex_ub_def n_rows_def)

text \<open>
  C5.  For relations of shapes \<open>|U| \<times> |I|\<close>, \<open>|B| \<times> |I|\<close> and \<open>|U| \<times> |B|\<close>, the
  builder returns \<open>H = hstack(H_i, H_ub)\<close> with \<open>H_i = vstack(ui, bi)\<close> and
  \<open>H_ub = hstack(vstack(uu, ub\<^sup>T), vstack(ub, bb))\<close>.  \<open>H\<close> has \<open>|U| + |B|\<close> rows and
  \<open>|I| + |U| + |B|\<close> columns, and its entry at \<open>(r, c)\<close> is read from the block that
  the layout puts there.
\<close>

theorem mix_Hypergraph_layout:
  assumes "wf_spmat ui" "wf_spmat bi" "wf_spmat ub"
    and "n_rows ui = n_rows ub" "n_rows bi = n_cols ub" "n_cols ui = n_cols bi"
  shows "\<exists>uu bb H_i left right H_ub H.
     uu_graph ub t = Inr uu \<and> bb_graph ub t = Inr bb \<and>
     sp_vstack ui bi = Inr H_i \<and>
     sp_vstack uu (transpose_sp ub) = Inr left \<and> sp_vstack ub bb = Inr right \<and>
     sp_hstack left right = Inr H_ub \<and> sp_hstack H_i H_ub = Inr H \<and>
     mix_Hypergraph (ui, bi, ub) t = Inr H \<and>
     n_rows H = n_rows ub + n_cols ub \<and>
     n_cols H = n_cols ui + n_rows ub + n_cols ub \<and>
     (\<forall>r < n_rows ub + n_cols ub. \<forall>c < n_cols ui + n_rows ub + n_cols ub.
        entry H r c =
          (if c < n_cols ui
             then (if r < n_rows ub then entry ui r c else entry bi (r - n_rows ub) c)
           else if c < n_cols ui + n_rows ub
             then (if r < n_rows ub then entry uu r (c - n_cols ui)
                   else entry ub (c - n_cols ui) (r - n_rows ub))
           else (if r < n_rows ub then entry ub r (c - n_cols ui - n_rows ub)
                 else entry bb (r - n_rows ub) (c - n_cols ui - n_rows ub))))"
proof -
  let ?uu = "user_similarity ub t" and ?bb = "bundle_similarity ub t"
  let ?H_i = "stack_v ui bi"
  let ?left = "stack_v ?uu (transpose_sp ub)" and ?right = "stack_v ub ?bb"
  let ?H_ub = "stack_h ?left ?right"
  let ?H = "stack_h ?H_i ?H_ub"
  have inc: "incidence (ui, bi, ub) t = ?H" by (simp add: incidence_def)
  have sum: "n_rows ui + n_rows bi = n_rows ub + n_cols ub" using assms(4,5) by simp
  have 1: "sp_vstack ui bi = Inr ?H_i" by (rule sp_vstack_stack[OF assms(6)])
  have 2: "sp_vstack ?uu (transpose_sp ub) = Inr ?left"
    by (rule sp_vstack_stack) (simp add: shape_user_similarity shape_transpose)
  have 3: "sp_vstack ub ?bb = Inr ?right"
    by (rule sp_vstack_stack) (simp add: shape_bundle_similarity)
  have 4: "sp_hstack ?left ?right = Inr ?H_ub"
    by (rule sp_hstack_stack)
       (simp add: shape_stack_v shape_user_similarity shape_bundle_similarity shape_transpose)
  have 5: "sp_hstack ?H_i ?H_ub = Inr ?H"
    by (rule sp_hstack_stack)
       (simp add: shape_stack_h shape_stack_v shape_user_similarity shape_bundle_similarity
          shape_transpose sum)
  have 6: "mix_Hypergraph (ui, bi, ub) t = Inr ?H"
    by (simp add: mix_Hypergraph_value assms(6) sum inc)
  have 7: "n_rows ?H = n_rows ub + n_cols ub" "n_cols ?H = n_cols ui + n_rows ub + n_cols ub"
    using shape_incidence[OF sum, of t] by (simp_all add: inc)
  have 8: "\<forall>r < n_rows ub + n_cols ub. \<forall>c < n_cols ui + n_rows ub + n_cols ub.
        entry ?H r c =
          (if c < n_cols ui
             then (if r < n_rows ub then entry ui r c else entry bi (r - n_rows ub) c)
           else if c < n_cols ui + n_rows ub
             then (if r < n_rows ub then entry ?uu r (c - n_cols ui)
                   else entry ub (c - n_cols ui) (r - n_rows ub))
           else (if r < n_rows ub then entry ub r (c - n_cols ui - n_rows ub)
                 else entry ?bb (r - n_rows ub) (c - n_cols ui - n_rows ub)))"
    using entry_incidence[OF assms, of _ _ t] by (simp only: inc) blast
  from uu_graph_value[of ub t] bb_graph_value[of ub t] 1 2 3 4 5 6 7 8
  show ?thesis by blast
qed

theorem mix_Hypergraph_layout_witness:
  "wf_spmat ex_ui \<and> wf_spmat ex_bi \<and> wf_spmat ex_ub \<and>
   n_rows ex_ui = n_rows ex_ub \<and> n_rows ex_bi = n_cols ex_ub \<and> n_cols ex_ui = n_cols ex_bi \<and>
   mix_Hypergraph (ex_ui, ex_bi, ex_ub) 10 = Inr ex_H \<and>
   n_rows ex_H = 4 \<and> n_cols ex_H = 6 \<and>
   entry ex_H 3 3 = entry ex_ub 1 1 \<and> entry ex_H 3 3 = 20 \<and>
   entry ex_H 2 1 = entry ex_bi 0 1 \<and> entry ex_H 2 1 = 1"
proof -
  have h: "wf_spmat ex_ui" "wf_spmat ex_bi" "wf_spmat ex_ub"
    "n_rows ex_ui = n_rows ex_ub" "n_rows ex_bi = n_cols ex_ub" "n_cols ex_ui = n_cols ex_bi"
    by (simp_all add: wf_spmat_def wf_row_def n_rows_def ex_ui_def ex_bi_def ex_ub_def)
  have n: "n_rows ex_ub = 2" "n_cols ex_ub = 2" "n_cols ex_ui = 2"
    by (simp_all add: n_rows_def ex_ub_def ex_ui_def)
  from mix_Hypergraph_layout[OF h, of 10] obtain uu bb H where
    m: "mix_Hypergraph (ex_ui, ex_bi, ex_ub) 10 = Inr H"
    and s: "n_rows H = n_rows ex_ub + n_cols ex_ub"
      "n_cols H = n_cols ex_ui + n_rows ex_ub + n_cols ex_ub"
    and e: "\<forall>r < n_rows ex_ub + n_cols ex_ub. \<forall>c < n_cols ex_ui + n_rows ex_ub + n_cols ex_ub.
        entry H r c =
          (if c < n_cols ex_ui
             then (if r < n_rows ex_ub then entry ex_ui r c else entry ex_bi (r - n_rows ex_ub) c)
           else if c < n_cols ex_ui + n_rows ex_ub
             then (if r < n_rows ex_ub then entry uu r (c - n_cols ex_ui)
                   else entry ex_ub (c - n_cols ex_ui) (r - n_rows ex_ub))
           else (if r < n_rows ex_ub then entry ex_ub r (c - n_cols ex_ui - n_rows ex_ub)
                 else entry bb (r - n_rows ex_ub) (c - n_cols ex_ui - n_rows ex_ub)))"
    by blast
  from m have H: "H = ex_H" by (simp add: ex_mix)
  from e[rule_format, of 3 3] have a: "entry ex_H 3 3 = entry ex_ub 1 1"
    unfolding n H by simp
  from e[rule_format, of 2 1] have b: "entry ex_H 2 1 = entry ex_bi 0 1"
    unfolding n H by simp
  have v: "entry ex_ub 1 1 = 20" "entry ex_bi 0 1 = 1"
    by (simp_all add: entry_def row_entry_def ex_ub_def ex_bi_def)
  from s have "n_rows ex_H = 4" "n_cols ex_H = 6" unfolding n H by simp_all
  with h ex_mix a b v show ?thesis by simp
qed


section \<open>Similarity thresholding\<close>

lemma map_enumerate_guard:
  assumes "length xs \<le> n"
  shows "map (\<lambda>ir. if fst ir < n then f (snd ir) else snd ir) (enumerate 0 xs) = map f xs"
  using assms by (intro nth_equalityI) (simp_all add: nth_enumerate_eq)

lemma binarize_all_rows:
  assumes "n_rows M \<le> n"
  shows "sprows (binarize_rows n t M)
         = map (map (\<lambda>kv. (fst kv, if snd kv > t then 1 else 0))) (sprows M)"
  using map_enumerate_guard[of "sprows M" n "map (\<lambda>kv. (fst kv, if snd kv > t then 1 else 0))"]
    assms
  by (simp add: binarize_rows_def n_rows_def)

lemma entry_product_sp:
  assumes "wf_spmat A" "n_cols A = n_rows B" "i < n_rows A"
  shows "entry (product A B) i j = (\<Sum>k<n_cols A. entry A i k * entry B k j)"
  unfolding product_def by (rule entry_product[OF assms])

lemma cooccurrence_users:
  assumes "wf_spmat ub" "i < n_rows ub" "j < n_rows ub"
  shows "entry (product ub (transpose_sp ub)) i j = (\<Sum>k<n_cols ub. entry ub i k * entry ub j k)"
proof -
  have "entry (product ub (transpose_sp ub)) i j
        = (\<Sum>k<n_cols ub. entry ub i k * entry (transpose_sp ub) k j)"
    by (rule entry_product_sp) (simp_all add: assms shape_transpose)
  also have "\<dots> = (\<Sum>k<n_cols ub. entry ub i k * entry ub j k)"
    by (rule sum.cong) (simp_all add: entry_transpose assms(3))
  finally show ?thesis .
qed

lemma cooccurrence_bundles:
  assumes "i < n_cols ub" "j < n_cols ub"
  shows "entry (product (transpose_sp ub) ub) i j = (\<Sum>k<n_rows ub. entry ub k i * entry ub k j)"
proof -
  have "entry (product (transpose_sp ub) ub) i j
        = (\<Sum>k<n_cols (transpose_sp ub). entry (transpose_sp ub) i k * entry ub k j)"
    by (rule entry_product_sp) (simp_all add: assms shape_transpose wf_transpose)
  also have "\<dots> = (\<Sum>k<n_rows ub. entry ub k i * entry ub k j)"
    unfolding shape_transpose by (rule sum.cong) (simp_all add: entry_transpose assms(1))
  finally show ?thesis .
qed

lemma threshold_all_zero:
  fixes rows :: "sprow list"
  assumes "list_all (list_all (\<lambda>kv. snd kv \<le> t)) rows"
  shows "list_all (list_all (\<lambda>kv. snd kv = 0))
           (map (map (\<lambda>kv. (fst kv, if snd kv > t then 1 else (0::real)))) rows)"
proof -
  have row: "list_all (\<lambda>kv. snd kv = 0) (map (\<lambda>kv. (fst kv, if snd kv > t then 1 else (0::real))) r)"
    if "list_all (\<lambda>kv. snd kv \<le> t) r" for r :: sprow
    using that by (induction r) auto
  from assms show ?thesis
    by (induction rows) (auto intro: row)
qed

lemma distinct_acc_add:
  "distinct (map fst acc) \<Longrightarrow> distinct (map fst (acc_add acc j x))"
proof (induction acc j x rule: acc_add.induct)
  case (1 j x)
  then show ?case by simp
next
  case (2 k v r j x)
  have "fst ` set (acc_add r j x) = insert j (fst ` set r)" by (rule keys_acc_add)
  with 2 show ?case by auto
qed

lemma distinct_fold_inner:
  "distinct (map fst acc) \<Longrightarrow>
   distinct (map fst (fold (\<lambda>jb acc'. acc_add acc' (fst jb) (a * snd jb)) rb acc))"
  by (induction rb arbitrary: acc) (simp_all add: distinct_acc_add)

lemma distinct_fold_outer:
  "distinct (map fst acc) \<Longrightarrow>
   distinct (map fst (fold (\<lambda>ka acc. fold (\<lambda>jb acc'. acc_add acc' (fst jb) (snd ka * snd jb))
                                         (sprows B ! fst ka) acc) ra acc))"
  by (induction ra arbitrary: acc) (simp_all add: distinct_fold_inner)

text \<open>A row of a sparse product stores every column at most once, and no zero.\<close>

lemma distinct_spmm_row: "distinct (map fst (spmm_row ra B))"
proof -
  have "distinct (map fst (fold (\<lambda>ka acc. fold (\<lambda>jb acc'. acc_add acc' (fst jb) (snd ka * snd jb))
                                         (sprows B ! fst ka) acc) ra []))"
    by (rule distinct_fold_outer) simp
  then show ?thesis
    by (simp add: spmm_row_def distinct_map_filter rev_map[symmetric])
qed

lemma nonzero_spmm_row: "kv \<in> set (spmm_row ra B) \<Longrightarrow> snd kv \<noteq> 0"
  by (simp add: spmm_row_def)

lemma row_entry_absent: "c \<notin> fst ` set r \<Longrightarrow> row_entry r c = 0"
  by (induction r) (auto simp: row_entry_Nil row_entry_Cons)

lemma row_entry_stored:
  "distinct (map fst r) \<Longrightarrow> kv \<in> set r \<Longrightarrow> row_entry r (fst kv) = snd kv"
proof (induction r)
  case Nil
  then show ?case by simp
next
  case (Cons a r)
  show ?case
  proof (cases "kv = a")
    case True
    from Cons.prems(1) have "fst a \<notin> fst ` set r" by simp
    then have "row_entry r (fst a) = 0" by (rule row_entry_absent)
    with True show ?thesis by (simp add: row_entry_Cons)
  next
    case False
    with Cons.prems have in_r: "kv \<in> set r" and d: "distinct (map fst r)" by simp_all
    from Cons.prems(1) in_r have "fst a \<noteq> fst kv" by force
    with Cons.IH[OF d in_r] show ?thesis by (simp add: row_entry_Cons)
  qed
qed

text \<open>
  Thresholding a row that stores every column once: the stored columns stay, and the value
  at a column is \<open>1\<close> exactly if the column is stored with a value above the threshold.
\<close>

lemma row_entry_thresholded:
  assumes "distinct (map fst r)"
  shows "row_entry (map (\<lambda>kv. (fst kv, if snd kv > t then 1 else 0)) r) c
         = (if c \<in> fst ` set r \<and> row_entry r c > t then 1 else 0)"
proof (cases "c \<in> fst ` set r")
  case False
  then have "c \<notin> fst ` set (map (\<lambda>kv. (fst kv, if snd kv > t then 1 else (0::real))) r)"
    by force
  then have "row_entry (map (\<lambda>kv. (fst kv, if snd kv > t then 1 else 0)) r) c = 0"
    by (rule row_entry_absent)
  with False show ?thesis by simp
next
  case True
  then obtain kv where kv: "kv \<in> set r" "fst kv = c" by auto
  let ?f = "\<lambda>kv. (fst kv, if snd kv > t then 1 else (0::real))"
  have d: "distinct (map fst (map ?f r))" using assms by (simp add: o_def)
  have "?f kv \<in> set (map ?f r)" using kv(1) by simp
  from row_entry_stored[OF d this] kv(2)
  have "row_entry (map ?f r) c = (if snd kv > t then 1 else 0)" by simp
  moreover from row_entry_stored[OF assms kv(1)] kv(2) have "row_entry r c = snd kv" by simp
  ultimately show ?thesis using True by simp
qed

lemma thresholded_product:
  assumes "n_rows A \<le> n" "i < n_rows A"
  shows "distinct (map fst (sprows (product A B) ! i))"
    and "map fst (sprows (binarize_rows n t (product A B)) ! i)
         = map fst (sprows (product A B) ! i)"
    and "entry (binarize_rows n t (product A B)) i c
         = (if c \<in> fst ` set (sprows (product A B) ! i) \<and> entry (product A B) i c > t
            then 1 else 0)"
    and "kv \<in> set (sprows (product A B) ! i) \<Longrightarrow>
         snd kv = entry (product A B) i (fst kv) \<and> snd kv \<noteq> 0"
proof -
  have row: "sprows (product A B) ! i = spmm_row (sprows A ! i) B"
    using assms(2) by (simp add: product_def n_rows_def)
  have bin: "sprows (binarize_rows n t (product A B)) ! i
             = map (\<lambda>kv. (fst kv, if snd kv > t then 1 else 0)) (sprows (product A B) ! i)"
    using assms binarize_all_rows[of "product A B" n t]
    by (simp add: shape_product product_def n_rows_def)
  show d: "distinct (map fst (sprows (product A B) ! i))"
    unfolding row by (rule distinct_spmm_row)
  show "map fst (sprows (binarize_rows n t (product A B)) ! i)
         = map fst (sprows (product A B) ! i)"
    unfolding bin by (simp add: o_def)
  show "entry (binarize_rows n t (product A B)) i c
         = (if c \<in> fst ` set (sprows (product A B) ! i) \<and> entry (product A B) i c > t
            then 1 else 0)"
    unfolding entry_def bin by (rule row_entry_thresholded[OF d])
  show "snd kv = entry (product A B) i (fst kv) \<and> snd kv \<noteq> 0"
    if "kv \<in> set (sprows (product A B) ! i)"
    using row_entry_stored[OF d that] that nonzero_spmm_row[of kv "sprows A ! i" B]
    by (simp add: entry_def row)
qed

lemma thresholded_all_zero:
  assumes "n_rows A \<le> n" "\<forall>i < n_rows A. \<forall>c. entry (product A B) i c \<le> t"
  shows "list_all (list_all (\<lambda>kv. snd kv = 0)) (sprows (binarize_rows n t (product A B)))"
proof -
  have "list_all (\<lambda>kv. snd kv \<le> t) (sprows (product A B) ! i)" if i: "i < n_rows A" for i
  proof -
    have "snd kv \<le> t" if "kv \<in> set (sprows (product A B) ! i)" for kv
      using thresholded_product(4)[OF assms(1) i that] assms(2) i by simp
    then show ?thesis by (simp add: list_all_iff)
  qed
  then have "list_all (list_all (\<lambda>kv. snd kv \<le> t)) (sprows (product A B))"
    by (simp add: list_all_length product_def n_rows_def)
  then show ?thesis
    using binarize_all_rows[of "product A B" n t] assms(1) threshold_all_zero
    by (simp add: shape_product)
qed

text \<open>
  C4.  Both co-occurrence products are formed without error, and each of their rows stores
  a column at most once, with a nonzero value that is the entry of the product there: the
  co-occurrence count \<open>\<Sum>k. ub[i,k] \<cdot> ub[j,k]\<close> (user side) or \<open>\<Sum>k. ub[k,i] \<cdot> ub[k,j]\<close>
  (bundle side).  The similarity relations store exactly the same columns; their entry at a
  stored column is \<open>1\<close> if the count there is strictly greater than the threshold and
  \<open>0\<close> otherwise, and \<open>0\<close> at every column that is not stored.  If no entry of a
  product exceeds the threshold, every stored value of its similarity relation is \<open>0\<close>.
\<close>

theorem similarity_thresholding:
  "\<exists>P Q uu bb.
     sp_matmul ub (transpose_sp ub) = Inr P \<and> sp_matmul (transpose_sp ub) ub = Inr Q \<and>
     uu_graph ub t = Inr uu \<and> bb_graph ub t = Inr bb \<and>
     n_rows P = n_rows ub \<and> n_rows uu = n_rows ub \<and> n_cols uu = n_rows ub \<and>
     n_rows Q = n_cols ub \<and> n_rows bb = n_cols ub \<and> n_cols bb = n_cols ub \<and>
     (\<forall>i < n_rows ub.
        distinct (map fst (sprows P ! i)) \<and>
        map fst (sprows uu ! i) = map fst (sprows P ! i) \<and>
        (\<forall>kv \<in> set (sprows P ! i). snd kv = entry P i (fst kv) \<and> snd kv \<noteq> 0) \<and>
        (\<forall>c. entry uu i c =
              (if c \<in> fst ` set (sprows P ! i) \<and> entry P i c > t then 1 else 0))) \<and>
     (\<forall>i < n_cols ub.
        distinct (map fst (sprows Q ! i)) \<and>
        map fst (sprows bb ! i) = map fst (sprows Q ! i) \<and>
        (\<forall>kv \<in> set (sprows Q ! i). snd kv = entry Q i (fst kv) \<and> snd kv \<noteq> 0) \<and>
        (\<forall>c. entry bb i c =
              (if c \<in> fst ` set (sprows Q ! i) \<and> entry Q i c > t then 1 else 0))) \<and>
     ((\<forall>i < n_rows ub. \<forall>c. entry P i c \<le> t) \<longrightarrow>
        list_all (list_all (\<lambda>kv. snd kv = 0)) (sprows uu)) \<and>
     ((\<forall>i < n_cols ub. \<forall>c. entry Q i c \<le> t) \<longrightarrow>
        list_all (list_all (\<lambda>kv. snd kv = 0)) (sprows bb)) \<and>
     (wf_spmat ub \<longrightarrow>
        (\<forall>i < n_rows ub. \<forall>j < n_rows ub.
           entry P i j = (\<Sum>k<n_cols ub. entry ub i k * entry ub j k))) \<and>
     (\<forall>i < n_cols ub. \<forall>j < n_cols ub.
        entry Q i j = (\<Sum>k<n_rows ub. entry ub k i * entry ub k j))"
proof -
  let ?T = "transpose_sp ub"
  let ?P = "product ub ?T" and ?Q = "product ?T ub"
  let ?uu = "user_similarity ub t" and ?bb = "bundle_similarity ub t"
  have p: "sp_matmul ub ?T = Inr ?P"
    by (rule sp_matmul_product) (simp add: shape_transpose)
  have q: "sp_matmul ?T ub = Inr ?Q"
    by (rule sp_matmul_product) (simp add: shape_transpose)
  have nT: "n_rows ?T = n_cols ub" by (simp add: shape_transpose)
  have leu: "n_rows ub \<le> n_rows ub" and leb: "n_rows ?T \<le> n_cols ub" by (simp_all add: nT)
  have U: "distinct (map fst (sprows ?P ! i)) \<and>
        map fst (sprows ?uu ! i) = map fst (sprows ?P ! i) \<and>
        (\<forall>kv \<in> set (sprows ?P ! i). snd kv = entry ?P i (fst kv) \<and> snd kv \<noteq> 0) \<and>
        (\<forall>c. entry ?uu i c =
              (if c \<in> fst ` set (sprows ?P ! i) \<and> entry ?P i c > t then 1 else 0))"
    if "i < n_rows ub" for i
    unfolding user_similarity_def
    using thresholded_product[OF leu that] by blast
  have B: "distinct (map fst (sprows ?Q ! i)) \<and>
        map fst (sprows ?bb ! i) = map fst (sprows ?Q ! i) \<and>
        (\<forall>kv \<in> set (sprows ?Q ! i). snd kv = entry ?Q i (fst kv) \<and> snd kv \<noteq> 0) \<and>
        (\<forall>c. entry ?bb i c =
              (if c \<in> fst ` set (sprows ?Q ! i) \<and> entry ?Q i c > t then 1 else 0))"
    if "i < n_cols ub" for i
  proof -
    from that have i: "i < n_rows ?T" by (simp add: nT)
    show ?thesis
      unfolding bundle_similarity_def
      using thresholded_product[OF leb i] by blast
  qed
  have zu: "list_all (list_all (\<lambda>kv. snd kv = 0)) (sprows ?uu)"
    if "\<forall>i < n_rows ub. \<forall>c. entry ?P i c \<le> t"
    unfolding user_similarity_def by (rule thresholded_all_zero[OF leu that])
  have zb: "list_all (list_all (\<lambda>kv. snd kv = 0)) (sprows ?bb)"
    if "\<forall>i < n_cols ub. \<forall>c. entry ?Q i c \<le> t"
    unfolding bundle_similarity_def
    by (rule thresholded_all_zero[OF leb]) (use that in \<open>simp add: nT\<close>)
  have cu: "\<forall>i < n_rows ub. \<forall>j < n_rows ub.
           entry ?P i j = (\<Sum>k<n_cols ub. entry ub i k * entry ub j k)" if "wf_spmat ub"
    using cooccurrence_users[OF that] by blast
  have cb: "\<forall>i < n_cols ub. \<forall>j < n_cols ub.
        entry ?Q i j = (\<Sum>k<n_rows ub. entry ub k i * entry ub k j)"
    using cooccurrence_bundles[of _ ub] by blast
  have sh: "n_rows ?P = n_rows ub" "n_rows ?uu = n_rows ub" "n_cols ?uu = n_rows ub"
    "n_rows ?Q = n_cols ub" "n_rows ?bb = n_cols ub" "n_cols ?bb = n_cols ub"
    by (simp_all add: shape_product shape_transpose shape_user_similarity
        shape_bundle_similarity)
  from p q uu_graph_value[of ub t] bb_graph_value[of ub t] sh U B zu zb cu cb
  show ?thesis by blast
qed

lemma ex_cooccurrence_row:
  "sp_matmul ex_ub_row (transpose_sp ex_ub_row) = Inr \<lparr>n_cols = 1, sprows = [[(0, 13)]]\<rparr>"
  "sp_matmul (transpose_sp ex_ub_row) ex_ub_row
   = Inr \<lparr>n_cols = 2, sprows = [[(1, 6), (0, 9)], [(1, 4), (0, 6)]]\<rparr>"
  by (simp_all add: sp_matmul_def transpose_sp_def ex_ub_row_def spmm_row_def n_rows_def
      enumerate_eq_zip eval_nat_numeral upt_rec)

lemma ex_similarity_row:
  "uu_graph ex_ub_row 10 = Inr \<lparr>n_cols = 1, sprows = [[(0, 1)]]\<rparr>"
  "bb_graph ex_ub_row 10 = Inr \<lparr>n_cols = 2, sprows = [[(1, 0), (0, 0)], [(1, 0), (0, 0)]]\<rparr>"
  by (simp_all add: uu_graph_def bb_graph_def ex_cooccurrence_row binarize_rows_def
      then_do_def enumerate_eq_zip eval_nat_numeral upt_rec n_rows_def, simp_all add: ex_ub_row_def n_rows_def)

theorem similarity_thresholding_witness:
  "wf_spmat ex_ub_row \<and>
   sp_matmul ex_ub_row (transpose_sp ex_ub_row) = Inr \<lparr>n_cols = 1, sprows = [[(0, 13)]]\<rparr> \<and>
   sp_matmul (transpose_sp ex_ub_row) ex_ub_row
     = Inr \<lparr>n_cols = 2, sprows = [[(1, 6), (0, 9)], [(1, 4), (0, 6)]]\<rparr> \<and>
   uu_graph ex_ub_row 10 = Inr \<lparr>n_cols = 1, sprows = [[(0, 1)]]\<rparr> \<and>
   bb_graph ex_ub_row 10 = Inr \<lparr>n_cols = 2, sprows = [[(1, 0), (0, 0)], [(1, 0), (0, 0)]]\<rparr> \<and>
   (\<Sum>k<n_cols ex_ub_row. entry ex_ub_row 0 k * entry ex_ub_row 0 k) = 13 \<and>
   entry \<lparr>n_cols = 1, sprows = [[(0, 1)]]\<rparr> 0 0 = 1 \<and>
   entry \<lparr>n_cols = 1, sprows = [[(0, 1)]]\<rparr> 0 1 = 0 \<and>
   entry \<lparr>n_cols = 2, sprows = [[(1, 0), (0, 0)], [(1, 0), (0, 0)]]\<rparr> 1 0 = 0 \<and>
   list_all (list_all (\<lambda>kv. snd kv = 0)) [[(1::nat, 0::real), (0, 0)], [(1, 0), (0, 0)]]"
proof -
  let ?P = "\<lparr>n_cols = 1, sprows = [[(0::nat, 13::real)]]\<rparr>"
  let ?Q = "\<lparr>n_cols = 2, sprows = [[(1::nat, 6::real), (0, 9)], [(1, 4), (0, 6)]]\<rparr>"
  let ?U = "\<lparr>n_cols = 1, sprows = [[(0::nat, 1::real)]]\<rparr>"
  let ?B = "\<lparr>n_cols = 2, sprows = [[(1::nat, 0::real), (0, 0)], [(1, 0), (0, 0)]]\<rparr>"
  have wf: "wf_spmat ex_ub_row" by (simp add: wf_spmat_def wf_row_def ex_ub_row_def)
  have n: "n_rows ex_ub_row = 1" "n_cols ex_ub_row = 2"
    by (simp_all add: n_rows_def ex_ub_row_def)
  obtain P Q uu bb where
    p: "sp_matmul ex_ub_row (transpose_sp ex_ub_row) = Inr P"
    and q: "sp_matmul (transpose_sp ex_ub_row) ex_ub_row = Inr Q"
    and u: "uu_graph ex_ub_row 10 = Inr uu" and b: "bb_graph ex_ub_row 10 = Inr bb"
    and ru: "\<forall>i < n_rows ex_ub_row.
        distinct (map fst (sprows P ! i)) \<and>
        map fst (sprows uu ! i) = map fst (sprows P ! i) \<and>
        (\<forall>kv \<in> set (sprows P ! i). snd kv = entry P i (fst kv) \<and> snd kv \<noteq> 0) \<and>
        (\<forall>c. entry uu i c =
              (if c \<in> fst ` set (sprows P ! i) \<and> entry P i c > 10 then 1 else 0))"
    and rb: "\<forall>i < n_cols ex_ub_row.
        distinct (map fst (sprows Q ! i)) \<and>
        map fst (sprows bb ! i) = map fst (sprows Q ! i) \<and>
        (\<forall>kv \<in> set (sprows Q ! i). snd kv = entry Q i (fst kv) \<and> snd kv \<noteq> 0) \<and>
        (\<forall>c. entry bb i c =
              (if c \<in> fst ` set (sprows Q ! i) \<and> entry Q i c > 10 then 1 else 0))"
    and zb: "(\<forall>i < n_cols ex_ub_row. \<forall>c. entry Q i c \<le> 10) \<longrightarrow>
        list_all (list_all (\<lambda>kv. snd kv = 0)) (sprows bb)"
    and cu: "wf_spmat ex_ub_row \<longrightarrow>
        (\<forall>i < n_rows ex_ub_row. \<forall>j < n_rows ex_ub_row.
           entry P i j = (\<Sum>k<n_cols ex_ub_row. entry ex_ub_row i k * entry ex_ub_row j k))"
    using similarity_thresholding[of ex_ub_row 10] by (elim exE conjE) (rule that)
  from ru have eu: "\<forall>i < n_rows ex_ub_row. \<forall>c. entry uu i c =
              (if c \<in> fst ` set (sprows P ! i) \<and> entry P i c > 10 then 1 else 0)"
    by simp
  from rb have eb: "\<forall>i < n_cols ex_ub_row. \<forall>c. entry bb i c =
              (if c \<in> fst ` set (sprows Q ! i) \<and> entry Q i c > 10 then 1 else 0)"
    by simp
  from p q u b have P: "P = ?P" and Q: "Q = ?Q" and U: "uu = ?U" and B: "bb = ?B"
    by (simp_all add: ex_cooccurrence_row ex_similarity_row)
  have small: "\<forall>i < n_cols ex_ub_row. \<forall>c. entry Q i c \<le> 10"
    by (simp add: n Q entry_def row_entry_def less_Suc_eq eval_nat_numeral)
  with zb have z: "list_all (list_all (\<lambda>kv. snd kv = 0)) [[(1::nat, 0::real), (0, 0)], [(1, 0), (0, 0)]]"
    by (simp add: B)
  from cu wf have "entry P 0 0 = (\<Sum>k<n_cols ex_ub_row. entry ex_ub_row 0 k * entry ex_ub_row 0 k)"
    by (simp add: n)
  then have s: "(\<Sum>k<n_cols ex_ub_row. entry ex_ub_row 0 k * entry ex_ub_row 0 k) = 13"
    by (simp add: P entry_def row_entry_def)
  from eu have "entry uu 0 0 = (if 0 \<in> fst ` set (sprows P ! 0) \<and> entry P 0 0 > 10 then 1 else 0)"
    and "entry uu 0 1 = (if 1 \<in> fst ` set (sprows P ! 0) \<and> entry P 0 1 > 10 then 1 else 0)"
    by (simp_all add: n)
  then have e1: "entry ?U 0 0 = 1" and e2: "entry ?U 0 1 = 0"
    by (simp_all add: P U entry_def row_entry_def)
  from eb have "entry bb 1 0 = (if 0 \<in> fst ` set (sprows Q ! 1) \<and> entry Q 1 0 > 10 then 1 else 0)"
    by (simp add: n)
  then have e3: "entry ?B 1 0 = 0"
    by (simp add: Q B entry_def row_entry_def)
  from wf ex_cooccurrence_row ex_similarity_row s e1 e2 e3 z show ?thesis by blast
qed

section \<open>Shape of the normalised operator\<close>

lemma shape_diags: "n_rows (diags v) = length v" "n_cols (diags v) = length v"
  by (simp_all add: diags_def n_rows_def)

lemma length_sums: "length (row_sums H) = n_rows H" "length (col_sums H) = n_cols H"
  by (simp_all add: row_sums_def col_sums_def n_rows_def)

lemma length_deg_inv: "length (deg_inv ds) = length ds"
  by (simp add: deg_inv_def)

lemma normalize_HyperGraph_value: "normalize_HyperGraph H = Inr (normalized H)"
proof -
  let ?Dv = "diags (deg_inv (row_sums H))" and ?De = "diags (deg_inv (col_sums H))"
  have 1: "sp_matmul ?Dv H = Inr (product ?Dv H)"
    by (rule sp_matmul_product) (simp add: shape_diags length_deg_inv length_sums)
  have 2: "sp_matmul (product ?Dv H) ?De = Inr (product (product ?Dv H) ?De)"
    by (rule sp_matmul_product) (simp add: shape_product shape_diags length_deg_inv length_sums)
  have 3: "sp_matmul (product (product ?Dv H) ?De) (transpose_sp H)
           = Inr (product (product (product ?Dv H) ?De) (transpose_sp H))"
    by (rule sp_matmul_product)
       (simp add: shape_product shape_diags length_deg_inv length_sums shape_transpose)
  have 4: "sp_matmul (product (product (product ?Dv H) ?De) (transpose_sp H)) ?Dv
           = Inr (normalized H)"
    unfolding normalized_def
    by (rule sp_matmul_product)
       (simp add: shape_product shape_diags length_deg_inv length_sums shape_transpose)
  show ?thesis
    unfolding normalize_HyperGraph_def Let_def deg_inv_def[symmetric]
    by (simp only: 1 2 3 4 then_do_Inr)
qed

lemma shape_normalized: "n_rows (normalized H) = n_rows H" "n_cols (normalized H) = n_rows H"
  by (simp_all add: normalized_def shape_product shape_diags length_deg_inv length_sums)

lemma Split_HyperGraph_default:
  "dev \<in> set devices \<Longrightarrow> Split_HyperGraph devices H dev 16 = Inr (blocks_of H 16)"
  using Split_blocks[of 16 dev devices H] by simp

lemma Split_HyperGraph_no_device:
  "dev \<notin> set devices \<Longrightarrow> Split_HyperGraph devices H dev 16 = Inl RuntimeError"
  using Split_no_device[of 16 dev devices H] by simp

lemma SCHBR_init_value:
  "SCHBR_init devices (ui, bi, ub) dev dp l2 d noise =
     (if n_cols ui \<noteq> n_cols bi \<or>
         (n_rows ui + n_rows bi \<noteq> n_rows ub + n_cols ub \<and> 0 < n_rows ui + n_rows bi)
        then Inl ValueError
      else if dev \<notin> set devices then Inl RuntimeError
      else if d < 0 then Inl RuntimeError
      else if d = 0 then Inl ZeroDivisionError
      else if dp < 0 \<or> 1 < dp then Inl ValueError
      else Inr \<lparr>num_users = n_rows ub, num_bundles = n_cols ub, num_items = n_cols ui,
                atom_graph =
                  blocks_of (normalized (if n_rows ui + n_rows bi = n_rows ub + n_cols ub
                                         then incidence (ui, bi, ub) 10
                                         else incidence_rowless (ui, bi, ub) 10)) 16,
                users_feature = tabulate (n_rows ub) (nat d) (noise_users noise),
                bundles_feature = tabulate (n_cols ub) (nat d) (noise_bundles noise),
                user_bound = tabulate (nat d) 1 (noise_bound noise),
                drop_p = dp, embed_L2_norm = l2, training = True\<rparr>)"
proof (cases "n_cols ui \<noteq> n_cols bi \<or>
         (n_rows ui + n_rows bi \<noteq> n_rows ub + n_cols ub \<and> 0 < n_rows ui + n_rows bi)")
  case True
  then have "mix_Hypergraph (ui, bi, ub) 10 = Inl ValueError"
    by (auto simp: mix_Hypergraph_value)
  with True show ?thesis
    by (simp add: SCHBR_init_def then_do_Inl)
next
  case False
  let ?H = "if n_rows ui + n_rows bi = n_rows ub + n_cols ub
            then incidence (ui, bi, ub) 10 else incidence_rowless (ui, bi, ub) 10"
  from False have mix: "mix_Hypergraph (ui, bi, ub) 10 = Inr ?H"
    by (auto simp: mix_Hypergraph_value)
  show ?thesis
  proof (cases "dev \<in> set devices")
    case True
    have "SCHBR_init devices (ui, bi, ub) dev dp l2 d noise =
          (if d < 0 then Inl RuntimeError
           else if d = 0 then Inl ZeroDivisionError
           else if dp < 0 \<or> 1 < dp then Inl ValueError
           else Inr \<lparr>num_users = n_rows ub, num_bundles = n_cols ub, num_items = n_cols ui,
                atom_graph = blocks_of (normalized ?H) 16,
                users_feature = tabulate (n_rows ub) (nat d) (noise_users noise),
                bundles_feature = tabulate (n_cols ub) (nat d) (noise_bundles noise),
                user_bound = tabulate (nat d) 1 (noise_bound noise),
                drop_p = dp, embed_L2_norm = l2, training = True\<rparr>)"
      unfolding SCHBR_init_def prod.case
      by (simp only: mix then_do_Inr normalize_HyperGraph_value
          Split_HyperGraph_default[OF True])
    with False True show ?thesis by simp
  next
    case nodev: False
    have "SCHBR_init devices (ui, bi, ub) dev dp l2 d noise = Inl RuntimeError"
      unfolding SCHBR_init_def prod.case
      by (simp only: mix then_do_Inr normalize_HyperGraph_value
          Split_HyperGraph_no_device[OF nodev] then_do_Inl)
    with False nodev show ?thesis by simp
  qed
qed


section \<open>Construction\<close>

text \<open>
  C7.  The normalised operator built from relations of consistent shapes is square: it has
  \<open>|U| + |B|\<close> rows and \<open>|U| + |B|\<close> columns.
\<close>

theorem normalized_operator_shape:
  assumes "n_rows ui = n_rows ub" "n_rows bi = n_cols ub" "n_cols ui = n_cols bi"
  shows "\<exists>H N. mix_Hypergraph (ui, bi, ub) t = Inr H \<and> normalize_HyperGraph H = Inr N \<and>
           n_rows H = n_rows ub + n_cols ub \<and> n_cols H = n_cols ui + n_rows ub + n_cols ub \<and>
           n_rows N = n_rows ub + n_cols ub \<and> n_cols N = n_rows ub + n_cols ub"
proof -
  have sum: "n_rows ui + n_rows bi = n_rows ub + n_cols ub" using assms(1,2) by simp
  let ?H = "incidence (ui, bi, ub) t"
  have "mix_Hypergraph (ui, bi, ub) t = Inr ?H"
    by (simp add: mix_Hypergraph_value assms(3) sum)
  moreover have "normalize_HyperGraph ?H = Inr (normalized ?H)"
    by (rule normalize_HyperGraph_value)
  ultimately show ?thesis
    using shape_incidence[OF sum, of t] by (simp add: shape_normalized)
qed

theorem normalized_operator_shape_witness:
  "n_rows ex_ui = n_rows ex_ub \<and> n_rows ex_bi = n_cols ex_ub \<and> n_cols ex_ui = n_cols ex_bi \<and>
   mix_Hypergraph (ex_ui, ex_bi, ex_ub) 10 = Inr ex_H \<and>
   \<not> isl (normalize_HyperGraph ex_H) \<and>
   n_rows (projr (normalize_HyperGraph ex_H)) = 4 \<and>
   n_cols (projr (normalize_HyperGraph ex_H)) = 4"
proof -
  have h: "n_rows ex_ui = n_rows ex_ub" "n_rows ex_bi = n_cols ex_ub" "n_cols ex_ui = n_cols ex_bi"
    by (simp_all add: n_rows_def ex_ui_def ex_bi_def ex_ub_def)
  have n: "n_rows ex_ub = 2" "n_cols ex_ub = 2" by (simp_all add: n_rows_def ex_ub_def)
  from normalized_operator_shape[OF h, of 10] obtain H N where
    "mix_Hypergraph (ex_ui, ex_bi, ex_ub) 10 = Inr H" "normalize_HyperGraph H = Inr N"
    "n_rows N = n_rows ex_ub + n_cols ex_ub" "n_cols N = n_rows ex_ub + n_cols ex_ub"
    by blast
  then have "normalize_HyperGraph ex_H = Inr N" "n_rows N = 4" "n_cols N = 4"
    by (simp_all add: ex_mix n)
  with h ex_mix show ?thesis by simp
qed

text \<open>
  For two users, two bundles and two items the operator is \<open>4 \<times> 4\<close>, not
  \<open>6 \<times> 8\<close>.
\<close>

theorem normalized_operator_shape_counterexample:
  "n_rows ex_ub = 2 \<and> n_cols ex_ub = 2 \<and> n_cols ex_ui = 2 \<and>
   mix_Hypergraph (ex_ui, ex_bi, ex_ub) 10 = Inr ex_H \<and>
   \<not> isl (normalize_HyperGraph ex_H) \<and>
   n_rows (projr (normalize_HyperGraph ex_H)) = 4 \<and>
   n_cols (projr (normalize_HyperGraph ex_H)) = 4 \<and>
   n_rows (projr (normalize_HyperGraph ex_H)) \<noteq> n_rows ex_ub + n_cols ex_ub + n_cols ex_ui \<and>
   n_cols (projr (normalize_HyperGraph ex_H))
     \<noteq> n_rows ex_ub + n_cols ex_ub + n_rows ex_ub + n_cols ex_ub"
proof -
  have n: "n_rows ex_ub = 2" "n_cols ex_ub = 2" "n_cols ex_ui = 2" "n_rows ex_H = 4"
    by (simp_all add: n_rows_def ex_ub_def ex_ui_def ex_H_def)
  show ?thesis
    by (simp add: normalize_HyperGraph_value shape_normalized n ex_mix)
qed




text \<open>
  C10.  Whatever the device, dropout, regularisation weight and embedding size, a model
  that is constructed holds the partition of the normalised \<open>mix_Hypergraph(raw_graph)\<close>
  taken at threshold \<open>10\<close> (and \<open>16\<close> blocks), and an error of the builder at threshold
  \<open>10\<close> is the error of the construction.
\<close>

theorem init_threshold_fixed:
  "(\<forall>m. SCHBR_init devices raw dev dp l2 d noise = Inr m \<longrightarrow>
      (\<exists>H N. mix_Hypergraph raw 10 = Inr H \<and> normalize_HyperGraph H = Inr N \<and>
             Split_HyperGraph devices N dev 16 = Inr (atom_graph m))) \<and>
   (\<forall>e. mix_Hypergraph raw 10 = Inl e \<longrightarrow> SCHBR_init devices raw dev dp l2 d noise = Inl e)"
proof -
  obtain ui bi ub where raw: "raw = (ui, bi, ub)" by (cases raw) auto
  show ?thesis
  proof (cases "mix_Hypergraph raw 10")
    case (Inl e)
    then show ?thesis by (simp add: SCHBR_init_def raw then_do_Inl)
  next
    case mix: (Inr H)
    have norm: "normalize_HyperGraph H = Inr (normalized H)"
      by (rule normalize_HyperGraph_value)
    have split: "Split_HyperGraph devices (normalized H) dev 16 = Inr (atom_graph m)"
      if init: "SCHBR_init devices raw dev dp l2 d noise = Inr m" for m
    proof (cases "Split_HyperGraph devices (normalized H) dev 16")
      case (Inl e)
      have "SCHBR_init devices raw dev dp l2 d noise = Inl e"
        unfolding SCHBR_init_def raw prod.case
        by (simp only: mix[unfolded raw] norm Inl then_do_Inr then_do_Inl)
      with init show ?thesis by simp
    next
      case (Inr blocks)
      have "SCHBR_init devices raw dev dp l2 d noise =
          (if d < 0 then Inl RuntimeError
           else if d = 0 then Inl ZeroDivisionError
           else if dp < 0 \<or> 1 < dp then Inl ValueError
           else Inr \<lparr>num_users = n_rows ub, num_bundles = n_cols ub, num_items = n_cols ui,
                atom_graph = blocks,
                users_feature = tabulate (n_rows ub) (nat d) (noise_users noise),
                bundles_feature = tabulate (n_cols ub) (nat d) (noise_bundles noise),
                user_bound = tabulate (nat d) 1 (noise_bound noise),
                drop_p = dp, embed_L2_norm = l2, training = True\<rparr>)"
        unfolding SCHBR_init_def raw prod.case
        by (simp only: mix[unfolded raw] norm Inr then_do_Inr)
      with init have "atom_graph m = blocks" by (auto split: if_splits)
      with Inr show ?thesis by simp
    qed
    from mix norm split show ?thesis by auto
  qed
qed

theorem init_threshold_fixed_witness:
  "\<not> isl (SCHBR_init [''cpu''] (ex_ui, ex_bi, ex_ub) ''cpu'' (1 / 2) 0 64 ex_noise) \<and>
   mix_Hypergraph (ex_ui, ex_bi, ex_ub) 10 = Inr ex_H \<and>
   then_do (normalize_HyperGraph ex_H) (\<lambda>N. Split_HyperGraph [''cpu''] N ''cpu'' 16)
     = Inr (atom_graph
             (projr (SCHBR_init [''cpu''] (ex_ui, ex_bi, ex_ub) ''cpu'' (1 / 2) 0 64 ex_noise))) \<and>
   SCHBR_init [''cpu''] (ex_ui, ex_bi_wide, ex_ub) ''cpu'' (1 / 2) 0 64 ex_noise = Inl ValueError"
proof -
  let ?init = "SCHBR_init [''cpu''] (ex_ui, ex_bi, ex_ub) ''cpu'' (1 / 2) 0 64 ex_noise"
  have ok: "\<not> isl ?init"
    by (simp add: SCHBR_init_value) (simp add: n_rows_def ex_ui_def ex_bi_def ex_ub_def)
  then obtain m where m: "?init = Inr m" by (cases ?init) auto
  with init_threshold_fixed[of "[''cpu'']" "(ex_ui, ex_bi, ex_ub)" "''cpu''" "1 / 2" 0 64 ex_noise]
  obtain H N where "mix_Hypergraph (ex_ui, ex_bi, ex_ub) 10 = Inr H"
    "normalize_HyperGraph H = Inr N" "Split_HyperGraph [''cpu''] N ''cpu'' 16 = Inr (atom_graph m)"
    by blast
  then have 1: "then_do (normalize_HyperGraph ex_H) (\<lambda>N. Split_HyperGraph [''cpu''] N ''cpu'' 16)
     = Inr (atom_graph (projr ?init))"
    by (simp add: ex_mix m then_do_Inr)
  have "mix_Hypergraph (ex_ui, ex_bi_wide, ex_ub) 10 = Inl ValueError"
    by (simp add: mix_Hypergraph_value ex_ui_def ex_bi_wide_def)
  with init_threshold_fixed[of "[''cpu'']" "(ex_ui, ex_bi_wide, ex_ub)" "''cpu''" "1 / 2" 0 64 ex_noise]
  have 2: "SCHBR_init [''cpu''] (ex_ui, ex_bi_wide, ex_ub) ''cpu'' (1 / 2) 0 64 ex_noise
           = Inl ValueError"
    by blast
  from ok ex_mix 1 2 show ?thesis by simp
qed


section \<open>Degree normalisation\<close>

lemma entry_diags:
  assumes "i < length v"
  shows "entry (diags v) i k = (if i = k then v ! i else 0)"
  using assms by (simp add: entry_def diags_def nth_enumerate_eq row_entry_Nil row_entry_Cons)

lemma wf_diags: "wf_spmat (diags v)"
  by (auto simp: wf_spmat_def diags_def list_all_iff wf_row_def in_set_enumerate_eq)

lemma sum_pick_left:
  fixes f :: "nat \<Rightarrow> real"
  assumes "i < n"
  shows "(\<Sum>l<n. (if i = l then a l else 0) * f l) = a i * f i"
proof -
  have "(\<Sum>l<n. (if i = l then a l else 0) * f l) = (\<Sum>l<n. if i = l then a l * f l else 0)"
    by (rule sum.cong) simp_all
  also have "\<dots> = a i * f i" using assms by (simp add: sum.delta')
  finally show ?thesis .
qed

lemma sum_pick_right:
  fixes f :: "nat \<Rightarrow> real"
  assumes "k < n"
  shows "(\<Sum>l<n. f l * (if l = k then a l else 0)) = f k * a k"
proof -
  have "(\<Sum>l<n. f l * (if l = k then a l else 0)) = (\<Sum>l<n. if l = k then f l * a l else 0)"
    by (rule sum.cong) simp_all
  also have "\<dots> = f k * a k" using assms by (simp add: sum.delta)
  finally show ?thesis .
qed

lemma entry_diag_times:
  assumes "wf_spmat H" "length v = n_rows H" "i < n_rows H"
  shows "entry (product (diags v) H) i k = v ! i * entry H i k"
proof -
  have "entry (product (diags v) H) i k = (\<Sum>l<n_cols (diags v). entry (diags v) i l * entry H l k)"
    by (rule entry_product_sp) (simp_all add: wf_diags shape_diags assms)
  also have "\<dots> = (\<Sum>l<n_rows H. (if i = l then v ! l else 0) * entry H l k)"
    unfolding shape_diags assms(2)
    by (rule sum.cong) (auto simp: entry_diags assms)
  also have "\<dots> = v ! i * entry H i k"
    by (rule sum_pick_left[OF assms(3)])
  finally show ?thesis .
qed

lemma entry_times_diag:
  assumes "wf_spmat M" "length v = n_cols M" "i < n_rows M" "k < n_cols M"
  shows "entry (product M (diags v)) i k = entry M i k * v ! k"
proof -
  have "entry (product M (diags v)) i k = (\<Sum>l<n_cols M. entry M i l * entry (diags v) l k)"
    by (rule entry_product_sp) (simp_all add: shape_diags assms)
  also have "\<dots> = (\<Sum>l<n_cols M. entry M i l * (if l = k then v ! l else 0))"
    by (rule sum.cong) (simp_all add: entry_diags assms(2))
  also have "\<dots> = entry M i k * v ! k"
    by (rule sum_pick_right[OF assms(4)])
  finally show ?thesis .
qed

lemma entry_normalized:
  assumes wf: "wf_spmat H" and i: "i < n_rows H" and j: "j < n_rows H"
  shows "entry (normalized H) i j =
           deg_inv (row_sums H) ! i *
           (\<Sum>k<n_cols H. entry H i k * deg_inv (col_sums H) ! k * entry H j k) *
           deg_inv (row_sums H) ! j"
proof -
  let ?dv = "deg_inv (row_sums H)" and ?de = "deg_inv (col_sums H)"
  let ?M1 = "product (diags ?dv) H"
  let ?M2 = "product ?M1 (diags ?de)"
  let ?M3 = "product ?M2 (transpose_sp H)"
  have lv: "length ?dv = n_rows H" and le: "length ?de = n_cols H"
    by (simp_all add: length_deg_inv length_sums)
  have wf1: "wf_spmat ?M1"
    by (intro wf_product_sp wf_diags wf) (simp add: shape_diags lv)
  have wf2: "wf_spmat ?M2"
    by (intro wf_product_sp wf1 wf_diags) (simp add: shape_product shape_diags le)
  have wf3: "wf_spmat ?M3"
    by (intro wf_product_sp wf2 wf_transpose) (simp add: shape_product shape_diags le shape_transpose)
  have e1: "entry ?M1 i k = ?dv ! i * entry H i k" for k
    by (rule entry_diag_times[OF wf lv i])
  have e2: "entry ?M2 i k = ?dv ! i * entry H i k * ?de ! k" if "k < n_cols H" for k
    using entry_times_diag[of ?M1 ?de i k] wf1 le i that
    by (simp add: shape_product shape_diags lv e1)
  have e3: "entry ?M3 i l = (\<Sum>k<n_cols H. ?dv ! i * entry H i k * ?de ! k * entry H l k)"
    if "l < n_rows H" for l
  proof -
    have "entry ?M3 i l = (\<Sum>k<n_cols ?M2. entry ?M2 i k * entry (transpose_sp H) k l)"
      by (rule entry_product_sp)
         (simp_all add: wf2 shape_product shape_diags le lv shape_transpose i)
    also have "\<dots> = (\<Sum>k<n_cols H. ?dv ! i * entry H i k * ?de ! k * entry H l k)"
      unfolding shape_product shape_diags le
      by (rule sum.cong) (simp_all add: e2 entry_transpose that)
    finally show ?thesis .
  qed
  have "entry (normalized H) i j = entry ?M3 i j * ?dv ! j"
    unfolding normalized_def
    using entry_times_diag[of ?M3 ?dv i j] wf3 lv i j
    by (simp add: shape_product shape_diags shape_transpose)
  also have "\<dots> = ?dv ! i * (\<Sum>k<n_cols H. entry H i k * ?de ! k * entry H j k) * ?dv ! j"
    by (simp add: e3[OF j] sum_distrib_left mult.assoc)
  finally show ?thesis .
qed

lemma row_sum_entries:
  assumes "wf_spmat H" "i < n_rows H"
  shows "row_sums H ! i = (\<Sum>k<n_cols H. entry H i k)"
proof -
  from assms have "wf_row (n_cols H) (sprows H ! i)"
    by (simp add: wf_spmat_def list_all_length n_rows_def)
  from sum_list_row_as_sum[OF this, of "\<lambda>k. 1"] assms(2)
  show ?thesis by (simp add: row_sums_def entry_def n_rows_def)
qed

lemma col_sum_entries:
  assumes "k < n_cols H"
  shows "col_sums H ! k = (\<Sum>i<n_rows H. entry H i k)"
proof -
  have "col_sums H ! k = sum_list (map (\<lambda>r. row_entry r k) (sprows H))"
    using assms by (simp add: col_sums_def)
  also have "\<dots> = (\<Sum>i = 0..<length (sprows H). map (\<lambda>r. row_entry r k) (sprows H) ! i)"
    using sum_list_sum_nth[of "map (\<lambda>r. row_entry r k) (sprows H)"] by simp
  also have "\<dots> = (\<Sum>i<n_rows H. entry H i k)"
    unfolding n_rows_def atLeast0LessThan by (rule sum.cong) (simp_all add: entry_def)
  finally show ?thesis .
qed

lemma row_entry_nonneg: "list_all (\<lambda>kv. 0 \<le> snd kv) r \<Longrightarrow> 0 \<le> row_entry r c"
  by (induction r) (simp_all add: row_entry_Nil row_entry_Cons)

lemma row_sums_nonneg:
  assumes "list_all (list_all (\<lambda>kv. 0 \<le> snd kv)) (sprows H)" "i < n_rows H"
  shows "0 \<le> row_sums H ! i"
proof -
  from assms have "list_all (\<lambda>kv. 0 \<le> snd kv) (sprows H ! i)"
    by (simp add: list_all_length n_rows_def)
  then have "0 \<le> sum_list (map snd (sprows H ! i))"
    by (intro sum_list_nonneg) (auto simp: list_all_iff)
  with assms(2) show ?thesis by (simp add: row_sums_def n_rows_def)
qed

lemma col_sums_nonneg:
  assumes "list_all (list_all (\<lambda>kv. 0 \<le> snd kv)) (sprows H)" "k < n_cols H"
  shows "0 \<le> col_sums H ! k"
proof -
  have "0 \<le> sum_list (map (\<lambda>r. row_entry r k) (sprows H))"
  proof (rule sum_list_nonneg)
    fix x assume "x \<in> set (map (\<lambda>r. row_entry r k) (sprows H))"
    then obtain r where "r \<in> set (sprows H)" "x = row_entry r k" by auto
    with assms(1) show "0 \<le> x" by (simp add: list_all_iff row_entry_nonneg)
  qed
  with assms(2) show ?thesis by (simp add: col_sums_def)
qed

lemma eps_pos: "0 < eps"
  by (simp add: eps_def)

text \<open>
  C3.  For a well-formed \<open>H\<close> with nonnegative stored values, the normaliser returns the
  \<open>n \<times> n\<close> matrix (\<open>n\<close> the row count of \<open>H\<close>) whose entry \<open>(i, j)\<close> is
  \<open>d\<^sub>v(i) \<cdot> (\<Sum>k. H[i,k] \<cdot> d\<^sub>e(k) \<cdot> H[j,k]) \<cdot> d\<^sub>v(j)\<close>, where
  \<open>d\<^sub>v(i) = 1 / (sqrt(row sum i) + \<epsilon>)\<close>, \<open>d\<^sub>e(k) = 1 / (sqrt(column sum k) + \<epsilon>)\<close> and
  \<open>\<epsilon> = 10\<^sup>-\<^sup>8\<close>: the entries of \<open>D\<^sub>v \<cdot> H \<cdot> D\<^sub>e \<cdot> H\<^sup>T \<cdot> D\<^sub>v\<close>.  Both denominators
  are positive, also for a row or column of degree zero.  Arithmetic is over the reals.
\<close>

theorem normalize_HyperGraph_formula:
  assumes "wf_spmat H" and "list_all (list_all (\<lambda>kv. 0 \<le> snd kv)) (sprows H)"
  shows "\<exists>N. normalize_HyperGraph H = Inr N \<and> n_rows N = n_rows H \<and> n_cols N = n_rows H \<and>
     eps = 1 / 100000000 \<and>
     (\<forall>i < n_rows H. row_sums H ! i = (\<Sum>k<n_cols H. entry H i k) \<and>
                      0 < sqrt (row_sums H ! i) + eps) \<and>
     (\<forall>k < n_cols H. col_sums H ! k = (\<Sum>i<n_rows H. entry H i k) \<and>
                      0 < sqrt (col_sums H ! k) + eps) \<and>
     (\<forall>i < n_rows H. \<forall>j < n_rows H.
        entry N i j =
          1 / (sqrt (row_sums H ! i) + eps) *
          (\<Sum>k<n_cols H. entry H i k * (1 / (sqrt (col_sums H ! k) + eps)) * entry H j k) *
          (1 / (sqrt (row_sums H ! j) + eps)))"
proof -
  have rows: "row_sums H ! i = (\<Sum>k<n_cols H. entry H i k) \<and> 0 < sqrt (row_sums H ! i) + eps"
    if "i < n_rows H" for i
  proof -
    from row_sums_nonneg[OF assms(2) that] have "0 \<le> sqrt (row_sums H ! i)" by simp
    then have "0 < sqrt (row_sums H ! i) + eps" using eps_pos by (rule add_nonneg_pos)
    with row_sum_entries[OF assms(1) that] show ?thesis by (rule conjI)
  qed
  have cols: "col_sums H ! k = (\<Sum>i<n_rows H. entry H i k) \<and> 0 < sqrt (col_sums H ! k) + eps"
    if "k < n_cols H" for k
  proof -
    from col_sums_nonneg[OF assms(2) that] have "0 \<le> sqrt (col_sums H ! k)" by simp
    then have "0 < sqrt (col_sums H ! k) + eps" using eps_pos by (rule add_nonneg_pos)
    with col_sum_entries[OF that] show ?thesis by (rule conjI)
  qed
  have ent: "entry (normalized H) i j =
          1 / (sqrt (row_sums H ! i) + eps) *
          (\<Sum>k<n_cols H. entry H i k * (1 / (sqrt (col_sums H ! k) + eps)) * entry H j k) *
          (1 / (sqrt (row_sums H ! j) + eps))"
    if i: "i < n_rows H" and j: "j < n_rows H" for i j
  proof -
    have dv: "deg_inv (row_sums H) ! l = 1 / (sqrt (row_sums H ! l) + eps)" if "l < n_rows H" for l
      using that by (simp add: deg_inv_def length_sums)
    have de: "deg_inv (col_sums H) ! k = 1 / (sqrt (col_sums H ! k) + eps)" if "k < n_cols H" for k
      using that by (simp add: deg_inv_def length_sums)
    have "(\<Sum>k<n_cols H. entry H i k * deg_inv (col_sums H) ! k * entry H j k)
        = (\<Sum>k<n_cols H. entry H i k * (1 / (sqrt (col_sums H ! k) + eps)) * entry H j k)"
      by (rule sum.cong) (simp_all add: de)
    with entry_normalized[OF assms(1) i j] show ?thesis
      by (simp only: dv[OF i] dv[OF j])
  qed
  have e: "eps = 1 / 100000000" by (simp add: eps_def)
  from rows cols ent e normalize_HyperGraph_value[of H] shape_normalized[of H]
  show ?thesis by blast
qed

lemma ex_small_sums:
  "row_sums ex_small_H = [1, 1]" "col_sums ex_small_H = [0, 1, 1]"
  by (simp_all add: row_sums_def col_sums_def ex_small_H_def row_entry_def upt_rec)

lemma ex_small_entries:
  "entry ex_small_H 0 0 = 0" "entry ex_small_H 0 (Suc 0) = 0" "entry ex_small_H 0 2 = 1"
  "entry ex_small_H (Suc 0) 0 = 0" "entry ex_small_H (Suc 0) (Suc 0) = 1"
  "entry ex_small_H (Suc 0) 2 = 0"
  by (simp_all add: entry_def row_entry_def ex_small_H_def)

theorem normalize_HyperGraph_formula_witness:
  "wf_spmat ex_small_H \<and>
   list_all (list_all (\<lambda>kv. 0 \<le> snd kv)) (sprows ex_small_H) \<and>
   \<not> isl (normalize_HyperGraph ex_small_H) \<and>
   entry (projr (normalize_HyperGraph ex_small_H)) 0 0 = 1 / (1 + eps) ^ 3 \<and>
   entry (projr (normalize_HyperGraph ex_small_H)) 0 1 = 0 \<and>
   col_sums ex_small_H ! 0 = 0 \<and> 0 < sqrt (col_sums ex_small_H ! 0) + eps"
proof -
  have h: "wf_spmat ex_small_H" "list_all (list_all (\<lambda>kv. 0 \<le> snd kv)) (sprows ex_small_H)"
    by (simp_all add: wf_spmat_def wf_row_def ex_small_H_def)
  have n: "n_rows ex_small_H = 2" "n_cols ex_small_H = 3"
    by (simp_all add: n_rows_def ex_small_H_def)
  from normalize_HyperGraph_formula[OF h] obtain N where
    N: "normalize_HyperGraph ex_small_H = Inr N"
    and c: "\<forall>k < n_cols ex_small_H.
              col_sums ex_small_H ! k = (\<Sum>i<n_rows ex_small_H. entry ex_small_H i k) \<and>
              0 < sqrt (col_sums ex_small_H ! k) + eps"
    and e: "\<forall>i < n_rows ex_small_H. \<forall>j < n_rows ex_small_H.
        entry N i j =
          1 / (sqrt (row_sums ex_small_H ! i) + eps) *
          (\<Sum>k<n_cols ex_small_H.
              entry ex_small_H i k * (1 / (sqrt (col_sums ex_small_H ! k) + eps)) * entry ex_small_H j k) *
          (1 / (sqrt (row_sums ex_small_H ! j) + eps))"
    by blast
  have three: "{..<3::nat} = {0, 1, 2}" by auto
  from e[rule_format, of 0 0] have e00: "entry N 0 0 = 1 / (1 + eps) ^ 3"
    unfolding n by (simp add: ex_small_sums ex_small_entries three power3_eq_cube)
  from e[rule_format, of 0 1] have e01: "entry N 0 1 = 0"
    unfolding n by (simp add: ex_small_sums ex_small_entries three)
  have "(0::nat) < n_cols ex_small_H" by (simp add: n)
  from c[rule_format, OF this] have c0: "0 < sqrt (col_sums ex_small_H ! 0) + eps" ..
  have "col_sums ex_small_H ! 0 = 0" by (simp add: ex_small_sums)
  with h N e00 e01 c0 show ?thesis by simp
qed

lemma ex_small_normalized:
  "normalize_HyperGraph ex_small_H
     = Inr \<lparr>n_cols = 2, sprows = [[(0, 1 / (1 + eps) ^ 3)], [(1, 1 / (1 + eps) ^ 3)]]\<rparr>"
proof -
  have p: "1 + eps \<noteq> 0" using eps_pos by simp
  have t: "transpose_sp ex_small_H = \<lparr>n_cols = 2, sprows = [[], [(0, 0), (1, 1)], [(0, 1), (1, 0)]]\<rparr>"
    by (simp add: transpose_sp_def ex_small_H_def n_rows_def upt_rec)
  show ?thesis
    unfolding normalize_HyperGraph_def ex_small_sums t
    using p
    by (simp add: then_do_def sp_matmul_def diags_def n_rows_def spmm_row_def ex_small_H_def
        Let_def power3_eq_cube)
qed


section \<open>Constructed models are well-formed\<close>

lemma wf_normalized:
  assumes "wf_spmat H"
  shows "wf_spmat (normalized H)"
  unfolding normalized_def
  by (intro wf_product_sp wf_diags wf_transpose assms)
     (simp_all add: shape_product shape_diags length_deg_inv length_sums shape_transpose)

lemma wf_row_slice: "wf_spmat H \<Longrightarrow> wf_spmat (row_slice H a b)"
proof -
  assume "wf_spmat H"
  moreover have "set (take (b - a) (drop a (sprows H))) \<subseteq> set (sprows H)"
    by (meson set_take_subset set_drop_subset subset_trans)
  ultimately show ?thesis
    by (auto simp: wf_spmat_def row_slice_def list_all_iff)
qed

lemma blocks_of_props:
  assumes "1 \<le> P"
  shows "blocks_of H P \<noteq> []"
    and "\<And>G. G \<in> set (blocks_of H P) \<Longrightarrow> n_cols G = n_cols H"
    and "wf_spmat H \<Longrightarrow> G \<in> set (blocks_of H P) \<Longrightarrow> wf_spmat G"
    and "sum_list (map n_rows (blocks_of H P)) = n_rows H"
proof -
  show "blocks_of H P \<noteq> []" using assms by (auto simp: blocks_of_def)
  show "\<And>G. G \<in> set (blocks_of H P) \<Longrightarrow> n_cols G = n_cols H"
    by (auto simp: blocks_of_def row_slice_def)
  show "wf_spmat H \<Longrightarrow> G \<in> set (blocks_of H P) \<Longrightarrow> wf_spmat G"
    by (auto simp: blocks_of_def wf_row_slice)
  have "concat (map sprows (blocks_of H P)) = sprows H"
    using concat_blocks[OF assms, of "sprows H"]
    by (simp add: blocks_of_def row_slice_def o_def n_rows_def)
  then have "length (concat (map sprows (blocks_of H P))) = n_rows H"
    by (simp add: n_rows_def)
  moreover have "n_rows = (\<lambda>M. length (sprows M))"
    by (simp add: fun_eq_iff n_rows_def)
  ultimately show "sum_list (map n_rows (blocks_of H P)) = n_rows H"
    by (simp add: length_concat o_def)
qed

lemma blocks_of_nonempty:
  assumes "1 \<le> P" "P \<le> n_rows H" "G \<in> set (blocks_of H P)"
  shows "0 < n_rows G"
proof -
  from assms(3) obtain i where i: "i < P"
    and G: "G = row_slice H (block_lo (n_rows H) P i) (block_hi (n_rows H) P i)"
    by (auto simp: blocks_of_def)
  have "block_lo (n_rows H) P i < block_hi (n_rows H) P i"
    by (rule block_size_pos[OF assms(1,2) i])
  moreover have "block_hi (n_rows H) P i \<le> n_rows H"
    by (rule block_bounds(2)[OF assms(1) i])
  ultimately show ?thesis
    by (simp add: G row_slice_def n_rows_def)
qed

lemma wf_tabulate: "wf_dmat (tabulate n d f)"
  by (simp add: wf_dmat_def tabulate_def list_all_iff)

text \<open>
  A model constructed from well-formed relations of consistent shapes with at least sixteen
  users and bundles is well-formed: no block of its operator is empty.
\<close>

lemma SCHBR_init_wf_model:
  assumes "wf_spmat ui" "wf_spmat bi" "wf_spmat ub"
    and s: "n_rows ui + n_rows bi = n_rows ub + n_cols ub"
    and big: "16 \<le> n_rows ub + n_cols ub"
    and init: "SCHBR_init devices (ui, bi, ub) dev dp l2 d noise = Inr m"
  shows "wf_model m" and "length (d_rows (user_bound m)) = d_cols (users_feature m)"
proof -
  let ?N = "normalized (incidence (ui, bi, ub) 10)"
  from init s have c: "n_cols ui = n_cols bi" and d: "0 < d"
    and m: "m = \<lparr>num_users = n_rows ub, num_bundles = n_cols ub, num_items = n_cols ui,
                atom_graph = blocks_of ?N 16,
                users_feature = tabulate (n_rows ub) (nat d) (noise_users noise),
                bundles_feature = tabulate (n_cols ub) (nat d) (noise_bundles noise),
                user_bound = tabulate (nat d) 1 (noise_bound noise),
                drop_p = dp, embed_L2_norm = l2, training = True\<rparr>"
    by (auto simp: SCHBR_init_value split: if_splits)
  have wfN: "wf_spmat ?N"
    by (intro wf_normalized wf_incidence assms(1-3) c)
  have shN: "n_rows ?N = n_rows ub + n_cols ub" "n_cols ?N = n_rows ub + n_cols ub"
    by (simp_all add: shape_normalized shape_incidence[OF s])
  have le: "(1::nat) \<le> 16" by simp
  have big': "16 \<le> n_rows ?N" using big by (simp add: shN)
  have "0 < n_rows G \<and> n_cols G = n_rows ub + n_cols ub \<and> wf_spmat G"
    if "G \<in> set (blocks_of ?N 16)" for G
    using blocks_of_props(2)[OF le that] blocks_of_props(3)[OF le wfN that]
      blocks_of_nonempty[OF le big' that] shN by simp
  then have b: "list_all (\<lambda>G. 0 < n_rows G \<and> n_cols G = n_rows ub + n_cols ub \<and> wf_spmat G)
                  (blocks_of ?N 16)"
    by (simp add: list_all_iff)
  show "wf_model m"
    using b d blocks_of_props(1)[OF le, of ?N] blocks_of_props(4)[OF le, of ?N] shN
    by (simp add: wf_model_def m wf_tabulate) (simp add: tabulate_def)
  show "length (d_rows (user_bound m)) = d_cols (users_feature m)"
    by (simp add: m tabulate_def)
qed


end
